theory Spec2Isabelle
  imports Complex_Main "HOL-Library.Word"
begin

unbundle bit_operations_syntax

section \<open>C's \<open>float\<close>: IEEE-754 binary32 values as bit patterns\<close>

text \<open>
  A \<open>float\<close> of \<open>qgrid.c\<close> is modelled by its 32-bit pattern (sign, 8 exponent bits,
  23 fraction bits), so that "bit-identical" has a meaning and NaN, the infinities and the
  two zeros are values of the model.  Comparison and arithmetic follow IEEE-754 with the
  default rounding (to nearest, ties to even), each operation rounded to binary32 on its
  own (\<open>FLT_EVAL_METHOD = 0\<close>, no contraction: the build line is \<open>-std=c11\<close>).  The payload of
  a NaN result is not fixed by C; every operation that yields a NaN yields \<open>float_qnan\<close>.
\<close>

type_synonym float32 = "32 word"

definition float_sign :: "float32 \<Rightarrow> bool" where
  "float_sign f = (2 ^ 31 \<le> uint f)"

definition float_exponent :: "float32 \<Rightarrow> int" where
  "float_exponent f = (uint f div 2 ^ 23) mod 2 ^ 8"

definition float_fraction :: "float32 \<Rightarrow> int" where
  "float_fraction f = uint f mod 2 ^ 23"

definition float_is_nan :: "float32 \<Rightarrow> bool" where
  "float_is_nan f = (float_exponent f = 255 \<and> float_fraction f \<noteq> 0)"

definition float_is_inf :: "float32 \<Rightarrow> bool" where
  "float_is_inf f = (float_exponent f = 255 \<and> float_fraction f = 0)"

definition float_is_zero :: "float32 \<Rightarrow> bool" where
  "float_is_zero f = (float_exponent f = 0 \<and> float_fraction f = 0)"

definition float_qnan :: float32 where
  "float_qnan = 0x7FC00000"

definition float_zero :: float32 where
  "float_zero = 0"

definition float_one :: float32 where
  "float_one = 0x3F800000"

text \<open>
  The order of two floats that are not NaN is the order of their sign-and-magnitude
  keys; both zeros have key 0.  Every comparison with a NaN is false.
\<close>

definition float_key :: "float32 \<Rightarrow> int" where
  "float_key f = (if float_sign f then - (uint f mod 2 ^ 31) else uint f mod 2 ^ 31)"

definition float_lt :: "float32 \<Rightarrow> float32 \<Rightarrow> bool" where
  "float_lt a b = (\<not> float_is_nan a \<and> \<not> float_is_nan b \<and> float_key a < float_key b)"

definition float_le :: "float32 \<Rightarrow> float32 \<Rightarrow> bool" where
  "float_le a b = (\<not> float_is_nan a \<and> \<not> float_is_nan b \<and> float_key a \<le> float_key b)"

definition float_gt :: "float32 \<Rightarrow> float32 \<Rightarrow> bool" where
  "float_gt a b = float_lt b a"

definition float_eq :: "float32 \<Rightarrow> float32 \<Rightarrow> bool" where
  "float_eq a b = (\<not> float_is_nan a \<and> \<not> float_is_nan b \<and> float_key a = float_key b)"

subsection \<open>Rounding to nearest, ties to even\<close>

text \<open>
  A finite float is \<open>(-1)^s * m * 2^k\<close> with \<open>m < 2^24\<close>: \<open>float_mant\<close> and \<open>float_expo\<close>.
\<close>

definition float_mant :: "float32 \<Rightarrow> int" where
  "float_mant f = (if float_exponent f = 0 then float_fraction f else 2 ^ 23 + float_fraction f)"

definition float_expo :: "float32 \<Rightarrow> int" where
  "float_expo f = (if float_exponent f = 0 then - 149 else float_exponent f - 150)"

text \<open>The number of binary digits of a positive integer.\<close>

function bitlen :: "int \<Rightarrow> int" where
  "bitlen n = (if n \<le> 0 then 0 else 1 + bitlen (n div 2))"
  by pat_completeness auto
termination
  by (relation "measure nat") auto

declare bitlen.simps [simp del]

text \<open>\<open>scale2 n k\<close> is \<open>n * 2^k\<close> for \<open>k \<ge> 0\<close> and \<open>n\<close> for \<open>k < 0\<close>.\<close>

definition scale2 :: "int \<Rightarrow> int \<Rightarrow> int" where
  "scale2 n k = (if 0 \<le> k then n * 2 ^ nat k else n)"

text \<open>\<open>ilog2_frac p q\<close> is \<open>floor (log2 (p / q))\<close> for positive \<open>p\<close> and \<open>q\<close>.\<close>

definition ilog2_frac :: "int \<Rightarrow> int \<Rightarrow> int" where
  "ilog2_frac p q =
     (let d = bitlen p - bitlen q
      in if scale2 q d \<le> scale2 p (- d) then d else d - 1)"

text \<open>\<open>rne n d\<close>: the integer nearest to \<open>n / d\<close>, the even one of two nearest.\<close>

definition rne :: "int \<Rightarrow> int \<Rightarrow> int" where
  "rne n d =
     (let q = n div d; r = n mod d
      in if 2 * r < d then q
         else if d < 2 * r then q + 1
         else if even q then q else q + 1)"

text \<open>
  \<open>round_mag p q\<close>: the magnitude bits (exponent and fraction field) of \<open>p / q\<close> rounded to
  binary32, for positive \<open>p\<close> and \<open>q\<close>; subnormal results and overflow to infinity included.
\<close>

definition round_mag :: "int \<Rightarrow> int \<Rightarrow> int" where
  "round_mag p q =
     (let e = max (ilog2_frac p q) (- 126);
          sh = e - 23;
          m = rne (scale2 p (- sh)) (scale2 q sh);
          bits = (e + 126) * 2 ^ 23 + m
      in if 0x7F800000 \<le> bits then 0x7F800000 else bits)"

definition float_pack :: "bool \<Rightarrow> int \<Rightarrow> float32" where
  "float_pack s mag = word_of_int (if s then 2 ^ 31 + mag else mag)"

definition float_round :: "bool \<Rightarrow> int \<Rightarrow> int \<Rightarrow> float32" where
  "float_round s p q = (if p = 0 then float_pack s 0 else float_pack s (round_mag p q))"

definition float_inf :: "bool \<Rightarrow> float32" where
  "float_inf s = float_pack s 0x7F800000"

subsection \<open>The operations \<open>qgrid.c\<close> uses\<close>

definition fneg :: "float32 \<Rightarrow> float32" where
  "fneg a = a XOR 0x80000000"

definition fmul :: "float32 \<Rightarrow> float32 \<Rightarrow> float32" where
  "fmul a b =
     (let s = (float_sign a \<noteq> float_sign b) in
      if float_is_nan a \<or> float_is_nan b then float_qnan
      else if float_is_inf a \<or> float_is_inf b then
        (if float_is_zero a \<or> float_is_zero b then float_qnan else float_inf s)
      else
        (let k = float_expo a + float_expo b
         in float_round s (scale2 (float_mant a * float_mant b) k) (scale2 1 (- k))))"

definition fdiv :: "float32 \<Rightarrow> float32 \<Rightarrow> float32" where
  "fdiv a b =
     (let s = (float_sign a \<noteq> float_sign b) in
      if float_is_nan a \<or> float_is_nan b then float_qnan
      else if float_is_inf a then (if float_is_inf b then float_qnan else float_inf s)
      else if float_is_inf b then float_pack s 0
      else if float_is_zero b then (if float_is_zero a then float_qnan else float_inf s)
      else
        (let k = float_expo a - float_expo b
         in float_round s (scale2 (float_mant a) k) (scale2 (float_mant b) (- k))))"

definition fadd :: "float32 \<Rightarrow> float32 \<Rightarrow> float32" where
  "fadd a b =
     (if float_is_nan a \<or> float_is_nan b then float_qnan
      else if float_is_inf a then
        (if float_is_inf b \<and> float_sign a \<noteq> float_sign b then float_qnan else a)
      else if float_is_inf b then b
      else
        (let k = min (float_expo a) (float_expo b);
             x = scale2 (float_mant a) (float_expo a - k);
             y = scale2 (float_mant b) (float_expo b - k);
             v = (if float_sign a then - x else x) + (if float_sign b then - y else y)
         in if v = 0 then float_pack (float_sign a \<and> float_sign b) 0
            else float_round (v < 0) (scale2 \<bar>v\<bar> k) (scale2 1 (- k))))"

definition fsub :: "float32 \<Rightarrow> float32 \<Rightarrow> float32" where
  "fsub a b = fadd a (fneg b)"

text \<open>The conversion \<open>(float) i\<close> of an \<open>int\<close>.\<close>

definition float_of_int :: "int \<Rightarrow> float32" where
  "float_of_int i = float_round (i < 0) \<bar>i\<bar> 1"

text \<open>
  \<open>fmaxf\<close> as C11 F.10.9.2 fixes it: a NaN argument is treated as missing data.
\<close>

definition fmaxf :: "float32 \<Rightarrow> float32 \<Rightarrow> float32" where
  "fmaxf a b =
     (if float_is_nan a then b
      else if float_is_nan b then a
      else if float_lt a b then b else a)"

section \<open>The grid world\<close>

text \<open>
  C's \<open>int\<close> is modelled by \<open>int\<close>.  For the sizes \<open>main\<close> admits (at most \<open>MAX_W\<close> by
  \<open>MAX_H\<close>) no operation on coordinates, state ids or step counts leaves the 32-bit range;
  where an \<open>int\<close> comes out of a file (\<open>load_qtable\<close>) the wrap-around is written out.
  An access outside an array is undefined behaviour in C: the functions that index an
  array return \<open>None\<close> there.  Output to the terminal (\<open>printf\<close>, \<open>render\<close>) is left out.

  Record fields share one name space, so the fields \<open>w\<close> and \<open>h\<close> of \<open>Env\<close> are \<open>env_w\<close> and
  \<open>env_h\<close>, those of \<open>QModel\<close> are \<open>qm_w\<close> and \<open>qm_h\<close> (with \<open>qm_q\<close> for \<open>Q\<close>), \<open>start\<close> and
  \<open>goal\<close> are split into their coordinates, and \<open>x\<close> and \<open>y\<close> of \<open>Pos\<close> are \<open>pos_x\<close> and
  \<open>pos_y\<close>.
\<close>

definition MAX_W :: int where
  "MAX_W = 10"

definition MAX_H :: int where
  "MAX_H = 10"

definition ACTIONS :: int where
  "ACTIONS = 4"

record Env =
  env_w :: int
  env_h :: int
  start_x :: int
  start_y :: int
  goal_x :: int
  goal_y :: int
  walls :: "int list list"
  step_limit :: int
  step_reward :: float32
  goal_reward :: float32

record Pos =
  pos_x :: int
  pos_y :: int

record QModel =
  qm_w :: int
  qm_h :: int
  qm_q :: "float32 list"

definition clamp :: "int \<Rightarrow> int \<Rightarrow> int \<Rightarrow> int" where
  "clamp v lo hi = (if v < lo then lo else (if v > hi then hi else v))"

definition state_id :: "Env \<Rightarrow> int \<Rightarrow> int \<Rightarrow> int" where
  "state_id env x y = y * env_w env + x"

definition idxQ :: "Env \<Rightarrow> int \<Rightarrow> int \<Rightarrow> int" where
  "idxQ env s a = s * ACTIONS + a"

text \<open>\<open>walls[y][x] = v\<close> on the \<open>MAX_H\<close> by \<open>MAX_W\<close> array (the indices are literals in range).\<close>

definition walls_set :: "int list list \<Rightarrow> nat \<Rightarrow> nat \<Rightarrow> int \<Rightarrow> int list list" where
  "walls_set ws y x v = ws[y := (ws ! y)[x := v]]"

definition env_init :: "int \<Rightarrow> int \<Rightarrow> Env" where
  "env_init w h =
     \<lparr> env_w = w, env_h = h,
       start_x = 0, start_y = 0,
       goal_x = w - 1, goal_y = h - 1,
       walls =
         (let ws = replicate (nat MAX_H) (replicate (nat MAX_W) 0)
          in if w \<ge> 5 \<and> h \<ge> 5
             then walls_set (walls_set (walls_set (walls_set ws 1 2 1) 2 2 1) 3 2 1) 3 1 1
             else ws),
       step_limit = w * h * 4,
       step_reward = 0xBF800000,
       goal_reward = 0x41200000 \<rparr>"

text \<open>
  The read \<open>env->walls[y][x]\<close>: defined inside the \<open>MAX_H\<close> by \<open>MAX_W\<close> array only.
\<close>

definition walls_at :: "Env \<Rightarrow> int \<Rightarrow> int \<Rightarrow> int option" where
  "walls_at env y x =
     (if 0 \<le> y \<and> y < MAX_H \<and> 0 \<le> x \<and> x < MAX_W
      then Some (walls env ! nat y ! nat x) else None)"

definition env_valid :: "Env \<Rightarrow> int \<Rightarrow> int \<Rightarrow> bool option" where
  "env_valid env x y =
     (if x < 0 \<or> x \<ge> env_w env \<or> y < 0 \<or> y \<ge> env_h env then Some False
      else case walls_at env y x of
             None \<Rightarrow> None
           | Some c \<Rightarrow> if c \<noteq> 0 then Some False else Some True)"

text \<open>The cell an action moves to, before the validity check of \<open>env_step\<close>.\<close>

definition move :: "Pos \<Rightarrow> int \<Rightarrow> Pos" where
  "move s action =
     (if action = 0 then s\<lparr>pos_y := pos_y s - 1\<rparr>
      else if action = 1 then s\<lparr>pos_x := pos_x s + 1\<rparr>
      else if action = 2 then s\<lparr>pos_y := pos_y s + 1\<rparr>
      else if action = 3 then s\<lparr>pos_x := pos_x s - 1\<rparr>
      else s)"

text \<open>\<open>env_step\<close> returns the new position; \<open>*reward\<close> and \<open>*done\<close> are returned with it.\<close>

definition env_step :: "Env \<Rightarrow> Pos \<Rightarrow> int \<Rightarrow> (Pos \<times> float32 \<times> bool) option" where
  "env_step env s action =
     (case env_valid env (pos_x (move s action)) (pos_y (move s action)) of
        None \<Rightarrow> None
      | Some ok \<Rightarrow>
          (let ns = (if \<not> ok then s else move s action);
               done = (pos_x ns = goal_x env \<and> pos_y ns = goal_y env);
               reward = (if done then goal_reward env else step_reward env)
           in Some (ns, reward, done)))"

text \<open>
  The invariant of an \<open>Env\<close> that \<open>main\<close> establishes: the grid fits the \<open>walls\<close> array,
  which has \<open>MAX_H\<close> rows of \<open>MAX_W\<close> cells.
\<close>

definition Env_wf :: "Env \<Rightarrow> bool" where
  "Env_wf env =
     (env_w env \<le> MAX_W \<and> env_h env \<le> MAX_H \<and>
      length (walls env) = nat MAX_H \<and>
      list_all (\<lambda>row. length row = nat MAX_W) (walls env))"

definition valid_pos :: "Env \<Rightarrow> Pos \<Rightarrow> bool" where
  "valid_pos env p = (env_valid env (pos_x p) (pos_y p) = Some True)"

section \<open>The Q-table and the policy\<close>

text \<open>The read \<open>m->q[i]\<close>: defined inside the allocated block only.\<close>

definition q_at :: "QModel \<Rightarrow> int \<Rightarrow> float32 option" where
  "q_at m i = (if 0 \<le> i \<and> i < int (length (qm_q m)) then Some (qm_q m ! nat i) else None)"

text \<open>
  The loop of \<open>argmax_a\<close>, from action \<open>a\<close> on, with the running \<open>best\<close> and \<open>best_a\<close>.
\<close>

function argmax_from :: "QModel \<Rightarrow> Env \<Rightarrow> int \<Rightarrow> int \<Rightarrow> float32 \<Rightarrow> int \<Rightarrow> int option" where
  "argmax_from m env s a best best_a =
     (if a < ACTIONS then
        (case q_at m (idxQ env s a) of
           None \<Rightarrow> None
         | Some v \<Rightarrow>
             if float_gt v best then argmax_from m env s (a + 1) v a
             else argmax_from m env s (a + 1) best best_a)
      else Some best_a)"
  by pat_completeness auto
termination
  by (relation "measure (\<lambda>(m, env, s, a, best, best_a). nat (ACTIONS - a))") auto

declare argmax_from.simps [simp del]

definition argmax_a :: "QModel \<Rightarrow> Env \<Rightarrow> int \<Rightarrow> int option" where
  "argmax_a m env s =
     (case q_at m (idxQ env s 0) of
        None \<Rightarrow> None
      | Some best \<Rightarrow> argmax_from m env s 1 best 0)"

function maxQ_from :: "QModel \<Rightarrow> Env \<Rightarrow> int \<Rightarrow> int \<Rightarrow> float32 \<Rightarrow> float32 option" where
  "maxQ_from m env s a best =
     (if a < ACTIONS then
        (case q_at m (idxQ env s a) of
           None \<Rightarrow> None
         | Some v \<Rightarrow>
             if float_gt v best then maxQ_from m env s (a + 1) v
             else maxQ_from m env s (a + 1) best)
      else Some best)"
  by pat_completeness auto
termination
  by (relation "measure (\<lambda>(m, env, s, a, best). nat (ACTIONS - a))") auto

declare maxQ_from.simps [simp del]

definition maxQ :: "QModel \<Rightarrow> Env \<Rightarrow> int \<Rightarrow> float32 option" where
  "maxQ m env s =
     (case q_at m (idxQ env s 0) of
        None \<Rightarrow> None
      | Some best \<Rightarrow> maxQ_from m env s 1 best)"

text \<open>
  The generator behind \<open>rand()\<close> is the C library's.  Its state is modelled by what it
  determines: the sequence of values the coming calls return.  \<open>rand\<close> returns the next
  one.  \<open>RAND_MAX\<close> is the library's too and is a parameter (\<open>rand_max\<close>) of what uses it.
\<close>

type_synonym rng = "nat \<Rightarrow> int"

definition rand :: "rng \<Rightarrow> int \<times> rng" where
  "rand g = (g 0, \<lambda>n. g (Suc n))"

text \<open>C's \<open>%\<close>: the remainder of the division that truncates towards zero.\<close>

definition c_rem :: "int \<Rightarrow> int \<Rightarrow> int" where
  "c_rem a b = sgn a * (\<bar>a\<bar> mod \<bar>b\<bar>)"

definition eps_greedy_action ::
  "int \<Rightarrow> QModel \<Rightarrow> Env \<Rightarrow> int \<Rightarrow> float32 \<Rightarrow> rng \<Rightarrow> (int \<times> rng) option" where
  "eps_greedy_action rand_max m env s eps g =
     (let (r, g1) = rand g in
      if float_lt (fdiv (float_of_int r) (float_of_int rand_max)) eps then
        (let (r2, g2) = rand g1 in Some (c_rem r2 ACTIONS, g2))
      else
        (case argmax_a m env s of
           None \<Rightarrow> None
         | Some a \<Rightarrow> Some (a, g1)))"

section \<open>Training and greedy play\<close>

text \<open>
  The epsilon of episode \<open>ep\<close> (first statement of the episode loop of \<open>train\<close>); \<open>expf\<close> is
  the C library's and a parameter.
\<close>

definition train_epsilon ::
  "(float32 \<Rightarrow> float32) \<Rightarrow> float32 \<Rightarrow> float32 \<Rightarrow> float32 \<Rightarrow> int \<Rightarrow> float32" where
  "train_epsilon expf eps_start eps_min eps_decay ep =
     fmaxf eps_min (fmul eps_start (expf (fmul (fneg eps_decay) (float_of_int ep))))"

text \<open>
  One pass through the body of the inner loop of \<open>train\<close>, up to the update of the table:
  the new table, the next position, the reward, \<open>done\<close> and the generator.
\<close>

definition train_step ::
  "int \<Rightarrow> Env \<Rightarrow> float32 \<Rightarrow> float32 \<Rightarrow> float32 \<Rightarrow> QModel \<Rightarrow> Pos \<Rightarrow> rng \<Rightarrow>
     (QModel \<times> Pos \<times> float32 \<times> bool \<times> rng) option" where
  "train_step rand_max env alpha gamma eps m s g =
     (let s_id = state_id env (pos_x s) (pos_y s) in
      case eps_greedy_action rand_max m env s_id eps g of
        None \<Rightarrow> None
      | Some (a, g') \<Rightarrow>
          (case env_step env s a of
             None \<Rightarrow> None
           | Some (ns, r, done) \<Rightarrow>
               (let ns_id = state_id env (pos_x ns) (pos_y ns) in
                case (if done then Some float_zero
                      else map_option (fmul gamma) (maxQ m env ns_id)) of
                  None \<Rightarrow> None
                | Some boot \<Rightarrow>
                    (let td_target = fadd r boot in
                     case q_at m (idxQ env s_id a) of
                       None \<Rightarrow> None
                     | Some qsa \<Rightarrow>
                         Some (m\<lparr>qm_q := (qm_q m)[nat (idxQ env s_id a) :=
                                       fadd qsa (fmul alpha (fsub td_target qsa))]\<rparr>,
                               ns, r, done, g')))))"

text \<open>
  The inner loop \<open>for (;;)\<close> of \<open>train\<close>: the table, the position, \<open>steps\<close>, \<open>ret\<close> and the
  generator when the loop is left.
\<close>

function train_episode ::
  "int \<Rightarrow> Env \<Rightarrow> float32 \<Rightarrow> float32 \<Rightarrow> float32 \<Rightarrow> QModel \<Rightarrow> Pos \<Rightarrow> int \<Rightarrow> float32 \<Rightarrow> rng \<Rightarrow>
     (QModel \<times> Pos \<times> int \<times> float32 \<times> rng) option" where
  "train_episode rand_max env alpha gamma eps m s steps ret g =
     (case train_step rand_max env alpha gamma eps m s g of
        None \<Rightarrow> None
      | Some (m', ns, r, done, g') \<Rightarrow>
          if done \<or> steps + 1 \<ge> step_limit env
          then Some (m', ns, steps + 1, fadd ret r, g')
          else train_episode rand_max env alpha gamma eps m' ns (steps + 1) (fadd ret r) g')"
  by pat_completeness auto
termination
  by (relation "measure (\<lambda>(rand_max, env, alpha, gamma, eps, m, s, steps, ret, g).
        nat (step_limit env - steps))") auto

declare train_episode.simps [simp del]

text \<open>
  The body of that loop run \<open>n\<close> times in a row, with its \<open>break\<close> taken out: the table, the
  position, \<open>ret\<close>, the \<open>done\<close> of the last pass and the generator after \<open>n\<close> passes.  It
  says where the loop is left: at the first pass that \<open>train_episode\<close> does not go beyond.
\<close>

fun train_passes ::
  "int \<Rightarrow> Env \<Rightarrow> float32 \<Rightarrow> float32 \<Rightarrow> float32 \<Rightarrow> nat \<Rightarrow>
     QModel \<times> Pos \<times> float32 \<times> bool \<times> rng \<Rightarrow> (QModel \<times> Pos \<times> float32 \<times> bool \<times> rng) option" where
  "train_passes rand_max env alpha gamma eps 0 st = Some st"
| "train_passes rand_max env alpha gamma eps (Suc n) (m, s, ret, d, g) =
     (case train_step rand_max env alpha gamma eps m s g of
        None \<Rightarrow> None
      | Some (m', ns, r, done, g') \<Rightarrow>
          train_passes rand_max env alpha gamma eps n (m', ns, fadd ret r, done, g'))"

definition INT_MAX :: int where
  "INT_MAX = 2147483647"

text \<open>
  The episode loop of \<open>train\<close> from episode \<open>ep\<close> on: the table and the generator at
  the end, and for every episode run its \<open>steps\<close> and \<open>ret\<close>, which the loop adds to
  \<open>avg_len\<close> and \<open>avg_ret\<close>.  \<open>++ep\<close> at \<open>INT_MAX\<close> overflows, which is undefined.
\<close>

function train_from ::
  "(float32 \<Rightarrow> float32) \<Rightarrow> int \<Rightarrow> Env \<Rightarrow> int \<Rightarrow> float32 \<Rightarrow> float32 \<Rightarrow> float32 \<Rightarrow> float32 \<Rightarrow>
     float32 \<Rightarrow> int \<Rightarrow> QModel \<Rightarrow> rng \<Rightarrow> (QModel \<times> rng \<times> (int \<times> float32) list) option" where
  "train_from expf rand_max env episodes alpha gamma eps_start eps_min eps_decay ep m g =
     (if ep \<le> episodes then
        (case train_episode rand_max env alpha gamma
                (train_epsilon expf eps_start eps_min eps_decay ep) m
                \<lparr>pos_x = start_x env, pos_y = start_y env\<rparr> 0 float_zero g of
           None \<Rightarrow> None
         | Some (m', s, steps, ret, g') \<Rightarrow>
             if ep = INT_MAX then None
             else
               (case train_from expf rand_max env episodes alpha gamma eps_start eps_min
                       eps_decay (ep + 1) m' g' of
                  None \<Rightarrow> None
                | Some (m'', g'', stats) \<Rightarrow> Some (m'', g'', (steps, ret) # stats)))
      else Some (m, g, []))"
  by pat_completeness auto
termination
  by (relation "measure (\<lambda>(expf, rand_max, env, episodes, alpha, gamma, eps_start, eps_min,
        eps_decay, ep, m, g). nat (episodes + 1 - ep))") auto

declare train_from.simps [simp del]

definition train ::
  "(float32 \<Rightarrow> float32) \<Rightarrow> int \<Rightarrow> Env \<Rightarrow> QModel \<Rightarrow> int \<Rightarrow> float32 \<Rightarrow> float32 \<Rightarrow> float32 \<Rightarrow>
     float32 \<Rightarrow> float32 \<Rightarrow> rng \<Rightarrow> (QModel \<times> rng \<times> (int \<times> float32) list) option" where
  "train expf rand_max env m episodes alpha gamma eps_start eps_min eps_decay g =
     train_from expf rand_max env episodes alpha gamma eps_start eps_min eps_decay 1 m g"

text \<open>The inner loop of \<open>play_greedy\<close>: the position, \<open>steps\<close> and \<open>ret\<close> when it is left.\<close>

function play_episode ::
  "Env \<Rightarrow> QModel \<Rightarrow> Pos \<Rightarrow> int \<Rightarrow> float32 \<Rightarrow> (Pos \<times> int \<times> float32) option" where
  "play_episode env m s steps ret =
     (case argmax_a m env (state_id env (pos_x s) (pos_y s)) of
        None \<Rightarrow> None
      | Some a \<Rightarrow>
          (case env_step env s a of
             None \<Rightarrow> None
           | Some (ns, r, done) \<Rightarrow>
               if done \<or> steps + 1 \<ge> step_limit env
               then Some (ns, steps + 1, fadd ret r)
               else play_episode env m ns (steps + 1) (fadd ret r)))"
  by pat_completeness auto
termination
  by (relation "measure (\<lambda>(env, m, s, steps, ret). nat (step_limit env - steps))") auto

declare play_episode.simps [simp del]

text \<open>
  The body of that loop run \<open>n\<close> times in a row, with its \<open>break\<close> taken out: the position,
  \<open>ret\<close> and the \<open>done\<close> of the last pass.
\<close>

fun play_passes ::
  "Env \<Rightarrow> QModel \<Rightarrow> nat \<Rightarrow> Pos \<times> float32 \<times> bool \<Rightarrow> (Pos \<times> float32 \<times> bool) option" where
  "play_passes env m 0 st = Some st"
| "play_passes env m (Suc n) (s, ret, d) =
     (case argmax_a m env (state_id env (pos_x s) (pos_y s)) of
        None \<Rightarrow> None
      | Some a \<Rightarrow>
          (case env_step env s a of
             None \<Rightarrow> None
           | Some (ns, r, done) \<Rightarrow> play_passes env m n (ns, fadd ret r, done)))"

text \<open>\<open>play_greedy\<close> from episode \<open>ep\<close> on: the (return, steps) pairs it prints.\<close>

function play_from :: "Env \<Rightarrow> QModel \<Rightarrow> int \<Rightarrow> int \<Rightarrow> (float32 \<times> int) list option" where
  "play_from env m episodes ep =
     (if ep \<le> episodes then
        (case play_episode env m \<lparr>pos_x = start_x env, pos_y = start_y env\<rparr> 0 float_zero of
           None \<Rightarrow> None
         | Some (s, steps, ret) \<Rightarrow>
             if ep = INT_MAX then None
             else map_option ((#) (ret, steps)) (play_from env m episodes (ep + 1)))
      else Some [])"
  by pat_completeness auto
termination
  by (relation "measure (\<lambda>(env, m, episodes, ep). nat (episodes + 1 - ep))") auto

declare play_from.simps [simp del]

definition play_greedy :: "Env \<Rightarrow> QModel \<Rightarrow> int \<Rightarrow> (float32 \<times> int) list option" where
  "play_greedy env m episodes = play_from env m episodes 1"

section \<open>Persistence\<close>

text \<open>
  A file is its bytes.  The file system is the partial map from the paths that
  \<open>fopen(path, "rb")\<close> opens to their contents, and the set of paths that
  \<open>fopen(path, "wb")\<close> opens; paths name regular files, so that what was written to a path
  is what is read from it, and \<open>fwrite\<close> to an open file writes all it is given.
  \<open>int\<close> and \<open>float\<close> are four bytes, least significant first (the layout of the machines
  the program is built for; \<open>fwrite\<close> and \<open>fread\<close> copy the bytes of the object).
\<close>

type_synonym byte = "8 word"

record fsys =
  files :: "string \<Rightarrow> byte list option"
  writable :: "string \<Rightarrow> bool"

datatype error =
    LoadFailed    \<comment> \<open>\<open>load_qtable\<close> returns 0\<close>
  | DimMismatch   \<comment> \<open>\<open>main\<close>: the loaded table does not fit the grid\<close>
  | ExitFopen     \<comment> \<open>\<open>save_qtable\<close>: \<open>perror("fopen"); exit(1)\<close>\<close>
  | ExitOOM       \<comment> \<open>\<open>qmodel_alloc\<close>: \<open>fprintf(stderr, "OOM\n"); exit(1)\<close>\<close>
  | Undefined     \<comment> \<open>an access outside an array\<close>

definition le32_bytes :: "32 word \<Rightarrow> byte list" where
  "le32_bytes w = [ucast w, ucast (drop_bit 8 w), ucast (drop_bit 16 w), ucast (drop_bit 24 w)]"

definition le32_word :: "byte list \<Rightarrow> 32 word" where
  "le32_word bs = foldr (\<lambda>b acc. ucast b OR push_bit 8 acc) bs 0"

text \<open>
  The value of an \<open>int\<close> expression whose exact result is \<open>v\<close>.  Signed overflow is
  undefined in C; what the compiled program does, on the two's complement machines it is
  built for, is wrap around, and that is what is written out here.
\<close>

definition int32_wrap :: "int \<Rightarrow> int" where
  "int32_wrap v = (v + 2 ^ 31) mod 2 ^ 32 - 2 ^ 31"

text \<open>The conversion \<open>(size_t) i\<close> of an \<open>int\<close>, for a \<open>size_t\<close> of 64 bits.\<close>

definition SIZE_MAX :: int where
  "SIZE_MAX = 2 ^ 64 - 1"

definition size_t_of_int :: "int \<Rightarrow> int" where
  "size_t_of_int i = i mod (SIZE_MAX + 1)"

definition int32_bytes :: "int \<Rightarrow> byte list" where
  "int32_bytes i = le32_bytes (word_of_int i)"

definition bytes_int32 :: "byte list \<Rightarrow> int" where
  "bytes_int32 bs = sint (le32_word bs)"

text \<open>The number of table slots \<open>(size_t)(w*h*ACTIONS)\<close>, as the program computes it.\<close>

definition qsize :: "int \<Rightarrow> int \<Rightarrow> int" where
  "qsize w h = size_t_of_int (int32_wrap (w * h * ACTIONS))"

text \<open>
  \<open>calloc(n, sizeof(float))\<close> fails when the byte count does not fit \<open>size_t\<close>; memory is
  taken to suffice for every other request.
\<close>

definition qmodel_alloc :: "int \<Rightarrow> int \<Rightarrow> error + QModel" where
  "qmodel_alloc w h =
     (if qsize w h * 4 > SIZE_MAX then Inl ExitOOM
      else Inr \<lparr> qm_w = w, qm_h = h, qm_q = replicate (nat (qsize w h)) float_zero \<rparr>)"

definition save_qtable :: "fsys \<Rightarrow> string \<Rightarrow> QModel \<Rightarrow> error + fsys" where
  "save_qtable fs path m =
     (if \<not> writable fs path then Inl ExitFopen
      else
        (let n = nat (qsize (qm_w m) (qm_h m)) in
         if length (qm_q m) < n then Inl Undefined
         else Inr (fs\<lparr>files := (files fs)(path \<mapsto>
                     int32_bytes (qm_w m) @ int32_bytes (qm_h m) @
                     concat (map le32_bytes (take n (qm_q m))))\<rparr>)))"

text \<open>The complete 4-byte items of a byte sequence, as \<open>fread(_, 4, n, f)\<close> counts them.\<close>

fun items4 :: "byte list \<Rightarrow> byte list list" where
  "items4 (a # b # c # d # rest) = [a, b, c, d] # items4 rest"
| "items4 _ = []"

definition load_qtable :: "fsys \<Rightarrow> string \<Rightarrow> error + QModel" where
  "load_qtable fs path =
     (case files fs path of
        None \<Rightarrow> Inl LoadFailed
      | Some bs \<Rightarrow>
          if length bs < 4 \<or> length (drop 4 bs) < 4 then Inl LoadFailed
          else
            (let w = bytes_int32 (take 4 bs);
                 h = bytes_int32 (take 4 (drop 4 bs))
             in case qmodel_alloc w h of
                  Inl e \<Rightarrow> Inl e
                | Inr m \<Rightarrow>
                    (let n = nat (qsize w h);
                         items = items4 (drop 8 bs)
                     in if length items < n then Inl LoadFailed
                        else Inr (m\<lparr>qm_q := map le32_word (take n items)\<rparr>))))"

section \<open>The run\<close>

text \<open>
  What the argument loop of \<open>main\<close> leaves in its variables; \<open>arg_seed\<close> is \<open>None\<close> when no
  \<open>--seed\<close> was given, and the seed is then \<open>(unsigned) time(NULL)\<close>.
\<close>

record Args =
  arg_train_eps :: int
  arg_play_eps :: int
  arg_seed :: "32 word option"
  arg_save_path :: "string option"
  arg_load_path :: "string option"
  arg_W :: int
  arg_H :: int
  arg_alpha :: float32
  arg_gamma :: float32
  arg_eps_start :: float32
  arg_eps_min :: float32
  arg_eps_decay :: float32

definition main_seed :: "32 word \<Rightarrow> Args \<Rightarrow> 32 word" where
  "main_seed clock args = (case arg_seed args of None \<Rightarrow> clock | Some v \<Rightarrow> v)"

text \<open>The table \<open>main\<close> works on: loaded and checked against the grid, or fresh.\<close>

definition main_table :: "fsys \<Rightarrow> Args \<Rightarrow> error + QModel" where
  "main_table fs args =
     (case arg_load_path args of
        Some path \<Rightarrow>
          (case load_qtable fs path of
             Inl e \<Rightarrow> Inl e
           | Inr q \<Rightarrow>
               if qm_w q \<noteq> arg_W args \<or> qm_h q \<noteq> arg_H args then Inl DimMismatch
               else Inr q)
      | None \<Rightarrow> qmodel_alloc (arg_W args) (arg_H args))"

text \<open>
  \<open>main\<close> after the argument loop: the exit status, the file system and the table at
  the end (\<open>None\<close> where the run stops before it has one).  \<open>rand_seq seed\<close> is the
  sequence \<open>rand()\<close> returns after \<open>srand(seed)\<close>.  The outer \<open>None\<close> is undefined
  behaviour.
\<close>

definition main ::
  "(float32 \<Rightarrow> float32) \<Rightarrow> int \<Rightarrow> (32 word \<Rightarrow> rng) \<Rightarrow> 32 word \<Rightarrow> Args \<Rightarrow> fsys \<Rightarrow>
     (int \<times> fsys \<times> QModel option) option" where
  "main expf rand_max rand_seq clock args fs =
     (if arg_W args < 2 \<or> arg_H args < 2 \<or> arg_W args > MAX_W \<or> arg_H args > MAX_H
      then Some (1, fs, None)
      else
        (let g = rand_seq (main_seed clock args);
             env = env_init (arg_W args) (arg_H args)
         in case main_table fs args of
              Inl e \<Rightarrow> Some (1, fs, None)
            | Inr q \<Rightarrow>
                (case (if arg_train_eps args > 0
                       then map_option fst
                              (train expf rand_max env q (arg_train_eps args) (arg_alpha args)
                                 (arg_gamma args) (arg_eps_start args) (arg_eps_min args)
                                 (arg_eps_decay args) g)
                       else Some q) of
                   None \<Rightarrow> None
                 | Some q' \<Rightarrow>
                     (case (if arg_train_eps args > 0
                            then (case arg_save_path args of
                                    Some path \<Rightarrow> save_qtable fs path q'
                                  | None \<Rightarrow> Inr fs)
                            else Inr fs) of
                        Inl Undefined \<Rightarrow> None
                      | Inl e \<Rightarrow> Some (1, fs, Some q')
                      | Inr fs' \<Rightarrow>
                          (case (if arg_play_eps args > 0
                                 then play_greedy env q' (arg_play_eps args)
                                 else Some []) of
                             None \<Rightarrow> None
                           | Some shown \<Rightarrow> Some (0, fs', Some q'))))))"

text \<open>\<open>greedy_spec vs r\<close>: \<open>r\<close> is the smallest index at which \<open>vs\<close> has its maximal value.\<close>

definition greedy_spec :: "float32 list \<Rightarrow> nat \<Rightarrow> bool" where
  "greedy_spec vs r =
     (r < length vs \<and>
      list_all (\<lambda>j. float_le (vs ! j) (vs ! r)) [0..<length vs] \<and>
      list_all (\<lambda>j. \<not> float_le (vs ! r) (vs ! j)) [0..<r])"

text \<open>The four action values of state \<open>s\<close>, in the order of the actions.\<close>

definition q_row :: "QModel \<Rightarrow> int \<Rightarrow> float32 list" where
  "q_row m s = map (\<lambda>a. qm_q m ! (nat s * 4 + a)) [0..<4]"

section \<open>Invariants of a run\<close>

text \<open>
  What \<open>main\<close> establishes before it trains or plays: the table has one row of
  \<open>ACTIONS\<close> values for every cell of the grid, and \<open>rand()\<close> returns no negative value.
\<close>

definition table_fits :: "Env \<Rightarrow> QModel \<Rightarrow> bool" where
  "table_fits env m = (int (length (qm_q m)) = env_w env * env_h env * ACTIONS)"

definition rng_ok :: "rng \<Rightarrow> bool" where
  "rng_ok g = (\<forall>n. 0 \<le> g n)"



section \<open>Example inputs\<close>

text \<open>
  The fresh table of the 2 by 2 grid, a one-state table whose first value is a NaN, and
  one with a tie of two actions.
\<close>

definition q_zero_2x2 :: QModel where
  "q_zero_2x2 = \<lparr>qm_w = 2, qm_h = 2, qm_q = replicate 16 float_zero\<rparr>"

definition m_nan :: QModel where
  "m_nan = \<lparr>qm_w = 1, qm_h = 1, qm_q = [float_qnan, float_one, float_zero, float_zero]\<rparr>"

definition m_tie :: QModel where
  "m_tie = \<lparr>qm_w = 1, qm_h = 1, qm_q = [float_zero, float_one, float_one, float_zero]\<rparr>"

text \<open>
  A table of the 2 by 2 grid whose greedy policy goes right in the start cell and down in
  the cell \<open>(1, 0)\<close>, that is from the start to the goal in two steps.
\<close>

definition m_path :: QModel where
  "m_path = \<lparr>qm_w = 2, qm_h = 2,
              qm_q = [float_zero, float_one, float_zero, float_zero,
                      float_zero, float_zero, float_one, float_zero] @ replicate 8 float_zero\<rparr>"

text \<open>
  A file system in which only \<open>qtable.bin\<close> can be opened for writing, and one whose file
  \<open>big.bin\<close> declares the dimensions \<open>1073741825\<close> by \<open>1\<close> and holds four floats.
\<close>

definition fs_example :: fsys where
  "fs_example = \<lparr>files = (\<lambda>p. None), writable = (\<lambda>p. p = ''qtable.bin'')\<rparr>"

definition fs_overflow :: fsys where
  "fs_overflow =
     \<lparr>files = (\<lambda>p. if p = ''big.bin''
                      then Some ([0x01, 0x00, 0x00, 0x40, 0x01, 0x00, 0x00, 0x00] @ replicate 16 0)
                      else None),
      writable = (\<lambda>p. False)\<rparr>"

text \<open>
  The arguments \<open>--train 2 --size 2 2 --seed 42 --save qtable.bin\<close>, and a second file
  system that differs from \<open>fs_example\<close> in a file the run does not touch.
\<close>

definition args_example :: Args where
  "args_example =
     \<lparr>arg_train_eps = 2, arg_play_eps = 0, arg_seed = Some 42,
      arg_save_path = Some ''qtable.bin'', arg_load_path = None, arg_W = 2, arg_H = 2,
      arg_alpha = 0x3DCCCCCD, arg_gamma = 0x3F7D70A4, arg_eps_start = float_one,
      arg_eps_min = 0x3D4CCCCD, arg_eps_decay = 0x3B23D70A\<rparr>"

definition fs_other :: fsys where
  "fs_other =
     \<lparr>files = (\<lambda>p. if p = ''notes.txt'' then Some [] else None),
      writable = (\<lambda>p. p = ''qtable.bin'')\<rparr>"

section \<open>Properties\<close>

subsection \<open>Floats\<close>

lemma float_lt_key:
  "\<not> float_is_nan a \<Longrightarrow> \<not> float_is_nan b \<Longrightarrow> float_lt a b \<longleftrightarrow> float_key a < float_key b"
  by (simp add: float_lt_def)

lemma float_le_key:
  "\<not> float_is_nan a \<Longrightarrow> \<not> float_is_nan b \<Longrightarrow> float_le a b \<longleftrightarrow> float_key a \<le> float_key b"
  by (simp add: float_le_def)

lemma float_consts:
  "float_is_nan float_qnan" "\<not> float_is_nan float_one" "\<not> float_is_nan float_zero"
  "float_key float_one = 1065353216" "float_key float_zero = 0"
  by (simp_all add: float_is_nan_def float_exponent_def float_fraction_def float_qnan_def
      float_one_def float_zero_def float_key_def float_sign_def)

subsection \<open>Rounding\<close>

text \<open>
  The value of a positive fraction \<open>p / q\<close> is followed through \<open>ilog2_frac\<close>, \<open>rne\<close> and
  \<open>round_mag\<close> in the reals, up to the fact the epsilon schedule needs: multiplying a
  non-negative float by a float in \<open>[0, 1]\<close> does not increase it, rounding included.
\<close>

lemma bitlen_bounds:
  assumes "0 < n"
  shows "1 \<le> bitlen n \<and> 2 ^ nat (bitlen n - 1) \<le> n \<and> n < 2 ^ nat (bitlen n)"
  using assms
proof (induction n rule: bitlen.induct)
  case (1 n)
  show ?case
  proof (cases "n = 1")
    case True
    have "bitlen 1 = 1"
      by (simp add: bitlen.simps [of 1] bitlen.simps [of 0])
    with True show ?thesis
      by simp
  next
    case False
    with "1.prems" have h: "0 < n div 2"
      by simp
    define b where "b = bitlen (n div 2)"
    from "1.IH" [OF _ h] "1.prems"
    have ih: "1 \<le> b" "2 ^ nat (b - 1) \<le> n div 2" "n div 2 < 2 ^ nat b"
      by (simp_all add: b_def)
    have bl: "bitlen n = 1 + b"
      using "1.prems" by (simp add: bitlen.simps [of n] b_def)
    have n1: "nat (1 + b) = Suc (nat b)" and n2: "nat b = Suc (nat (b - 1))"
      using ih(1) by simp_all
    have "2 ^ nat b \<le> 2 * (n div 2)"
      using ih(2) by (subst n2) simp
    then have lo: "2 ^ nat b \<le> n"
      by simp
    have "n < 2 * (n div 2) + 2"
      by simp
    also have "\<dots> \<le> 2 * 2 ^ nat b"
      using ih(3) by simp
    finally have hi: "n < 2 ^ nat (1 + b)"
      by (simp add: n1)
    from lo hi ih(1) show ?thesis
      by (simp add: bl)
  qed
qed

lemma bitlen_real:
  assumes "0 < n"
  shows "2 powi (bitlen n - 1) \<le> real_of_int n" "real_of_int n < 2 powi bitlen n"
proof -
  note b = bitlen_bounds [OF assms]
  have "real_of_int (2 ^ nat (bitlen n - 1)) \<le> real_of_int n"
    using b by (intro of_int_le_iff [THEN iffD2]) simp
  then show "2 powi (bitlen n - 1) \<le> real_of_int n"
    using b by (simp add: power_int_nonneg_exp)
  have "real_of_int n < real_of_int (2 ^ nat (bitlen n))"
    using b by (intro of_int_less_iff [THEN iffD2]) simp
  then show "real_of_int n < 2 powi bitlen n"
    using b by (simp add: power_int_nonneg_exp)
qed

lemma scale2_real:
  "real_of_int (scale2 n k) = real_of_int n * (if 0 \<le> k then 2 powi k else 1)"
  by (simp add: scale2_def power_int_nonneg_exp)

lemma scale2_ratio:
  assumes "0 < q"
  shows "real_of_int (scale2 p (- s)) / real_of_int (scale2 q s)
           = real_of_int p / real_of_int q * 2 powi (- s)"
proof (cases "0 \<le> s")
  case True
  then have "real_of_int (scale2 p (- s)) = real_of_int p"
    by (cases "s = 0") (simp_all add: scale2_real)
  with True show ?thesis
    by (simp add: scale2_real power_int_minus divide_simps)
next
  case False
  then show ?thesis
    by (simp add: scale2_real)
qed

lemma scale2_le_iff:
  assumes "0 < p" "0 < q"
  shows "scale2 q d \<le> scale2 p (- d) \<longleftrightarrow> 2 powi d \<le> real_of_int p / real_of_int q"
proof -
  have pos: "0 < real_of_int (scale2 q d)"
    using assms by (simp add: scale2_def)
  have "scale2 q d \<le> scale2 p (- d) \<longleftrightarrow> real_of_int (scale2 q d) \<le> real_of_int (scale2 p (- d))"
    by simp
  also have "\<dots> \<longleftrightarrow> 1 \<le> real_of_int (scale2 p (- d)) / real_of_int (scale2 q d)"
    using pos by (simp add: divide_simps)
  also have "\<dots> \<longleftrightarrow> 1 \<le> real_of_int p / real_of_int q * 2 powi (- d)"
    by (simp only: scale2_ratio [OF assms(2)])
  also have "\<dots> \<longleftrightarrow> 2 powi d \<le> real_of_int p / real_of_int q"
  proof -
    have t: "0 < (2::real) powi d"
      by simp
    have "real_of_int p / real_of_int q * 2 powi (- d) = (real_of_int p / real_of_int q) / 2 powi d"
      by (simp add: power_int_minus divide_inverse)
    then show ?thesis
      using t by (simp only: pos_le_divide_eq mult_1)
  qed
  finally show ?thesis .
qed

lemma ilog2_frac_bounds:
  assumes "0 < p" "0 < q"
  shows "2 powi ilog2_frac p q \<le> real_of_int p / real_of_int q"
    "real_of_int p / real_of_int q < 2 powi (ilog2_frac p q + 1)"
proof -
  define d where "d = bitlen p - bitlen q"
  define x where "x = real_of_int p / real_of_int q"
  have q: "0 < real_of_int q" and p: "0 < real_of_int p"
    using assms by simp_all
  note bp = bitlen_real [OF assms(1)] and bq = bitlen_real [OF assms(2)]
  have "x < 2 powi bitlen p / 2 powi (bitlen q - 1)"
    unfolding x_def using bp(2) bq(1) p q
    by (intro frac_less) simp_all
  also have "\<dots> = 2 powi (d + 1)"
    by (simp add: d_def power_int_diff power_int_add)
  finally have hi: "x < 2 powi (d + 1)" .
  have "2 powi (bitlen p - 1) / 2 powi bitlen q \<le> x"
    unfolding x_def using bp(1) bq(2) p q
    by (intro frac_le) simp_all
  moreover have "2 powi (bitlen p - 1) / 2 powi bitlen q = (2::real) powi (d - 1)"
    by (simp add: d_def power_int_diff)
  ultimately have lo: "2 powi (d - 1) \<le> x"
    by simp
  have e: "ilog2_frac p q = (if 2 powi d \<le> x then d else d - 1)"
    by (simp add: ilog2_frac_def Let_def d_def [symmetric] scale2_le_iff [OF assms] x_def)
  show "2 powi ilog2_frac p q \<le> real_of_int p / real_of_int q"
    using lo by (simp add: e x_def [symmetric])
  show "real_of_int p / real_of_int q < 2 powi (ilog2_frac p q + 1)"
    using hi by (simp add: e x_def [symmetric])
qed

lemma rne_le:
  assumes "0 < d" "n \<le> N * d"
  shows "rne n d \<le> N"
proof -
  have q: "n div d \<le> N"
    using assms by (metis zdiv_mono1 nonzero_mult_div_cancel_right less_irrefl)
  show ?thesis
  proof (cases "n div d = N")
    case True
    have "n = d * (n div d) + n mod d"
      by simp
    with True assms have "n mod d \<le> 0"
      by (simp add: mult.commute)
    moreover have "0 \<le> n mod d"
      using assms(1) by simp
    ultimately have "n mod d = 0"
      by simp
    with assms(1) True show ?thesis
      by (simp add: rne_def Let_def)
  next
    case False
    with q have "n div d + 1 \<le> N"
      by simp
    then show ?thesis
      by (simp add: rne_def Let_def)
  qed
qed

lemma rne_le_real:
  assumes "0 < d" "real_of_int n / real_of_int d \<le> real_of_int N"
  shows "rne n d \<le> N"
proof -
  from assms have "real_of_int n \<le> real_of_int (N * d)"
    by (simp add: divide_simps)
  then have "n \<le> N * d"
    by (simp only: of_int_le_iff)
  with assms(1) show ?thesis
    by (rule rne_le)
qed

lemma scale2_pos: "0 < n \<Longrightarrow> 0 < scale2 n k"
  by (simp add: scale2_def)

lemma two_powi_less_cancel:
  assumes "(2::real) powi a < 2 powi b"
  shows "a < b"
proof (rule ccontr)
  assume "\<not> a < b"
  then have "(2::real) powi b \<le> 2 powi a"
    by (intro power_int_increasing) simp_all
  with assms show False
    by simp
qed

lemma rne_scaled_le:
  assumes "0 < q" "real_of_int p / real_of_int q * 2 powi (- s) \<le> real_of_int N"
  shows "rne (scale2 p (- s)) (scale2 q s) \<le> N"
proof (rule rne_le_real)
  show "0 < scale2 q s"
    using assms(1) by (rule scale2_pos)
  show "real_of_int (scale2 p (- s)) / real_of_int (scale2 q s) \<le> real_of_int N"
    using assms by (simp only: scale2_ratio)
qed

lemma round_mag_le:
  assumes p: "0 < p" and q: "0 < q"
    and e: "- 126 \<le> e" and m: "m < 2 ^ 24" and norm: "e = - 126 \<or> 2 ^ 23 \<le> m"
    and le: "real_of_int p / real_of_int q \<le> real_of_int m * 2 powi (e - 23)"
  shows "round_mag p q \<le> (e + 126) * 2 ^ 23 + m"
proof -
  define x where "x = real_of_int p / real_of_int q"
  define l where "l = ilog2_frac p q"
  define e' where "e' = max l (- 126)"
  define m' where "m' = rne (scale2 p (- (e' - 23))) (scale2 q (e' - 23))"
  note lb = ilog2_frac_bounds [OF p q, folded x_def l_def]
  have x0: "0 < x"
    using p q by (simp add: x_def)
  have "real_of_int m * 2 powi (e - 23) < 2 ^ 24 * 2 powi (e - 23)"
  proof -
    have "real_of_int m < real_of_int (2 ^ 24)"
      using m by (simp only: of_int_less_iff)
    then show ?thesis
      by simp
  qed
  also have "\<dots> = 2 powi (e + 1)"
    using power_int_add [of "2::real" 24 "e - 23"] by (simp add: add.commute)
  finally have xe: "x < 2 powi (e + 1)"
    using le by (simp add: x_def)
  with lb(1) have "(2::real) powi l < 2 powi (e + 1)"
    by simp
  then have "l < e + 1"
    by (rule two_powi_less_cancel)
  with e have e'e: "e' \<le> e"
    by (simp add: e'_def)
  have bits: "(e' + 126) * 2 ^ 23 + m' \<le> (e + 126) * 2 ^ 23 + m"
  proof (cases "e' = e")
    case True
    have "x * 2 powi (- (e - 23)) \<le> real_of_int m * 2 powi (e - 23) * 2 powi (- (e - 23))"
      using le by (intro mult_right_mono) (simp_all add: x_def)
    also have "\<dots> = real_of_int m"
    proof -
      have "(2::real) powi (e - 23) * 2 powi (- (e - 23)) = 1"
        using power_int_add [of "2::real" "e - 23" "- (e - 23)"] by simp
      then show ?thesis
        by (simp only: mult.assoc mult_1_right)
    qed
    finally have "m' \<le> m"
      unfolding m'_def True x_def by (intro rne_scaled_le q)
    with True show ?thesis
      by simp
  next
    case False
    with e'e have lt: "e' + 1 \<le> e"
      by simp
    with e'e have big: "2 ^ 23 \<le> m"
      using norm by (auto simp add: e'_def)
    have "x < 2 powi (e' + 1)"
    proof -
      have "(2::real) powi (l + 1) \<le> 2 powi (e' + 1)"
        by (intro power_int_increasing) (simp_all add: e'_def)
      with lb(2) show ?thesis
        by simp
    qed
    then have "x * 2 powi (- (e' - 23)) \<le> 2 powi (e' + 1) * 2 powi (- (e' - 23))"
      by (intro mult_right_mono) simp_all
    also have "\<dots> = real_of_int (2 ^ 24)"
      using power_int_add [of "2::real" "e' + 1" "- (e' - 23)"] by simp
    finally have "m' \<le> 2 ^ 24"
      unfolding m'_def x_def by (intro rne_scaled_le q)
    then have "(e' + 126) * 2 ^ 23 + m' \<le> (e' + 1 + 126) * 2 ^ 23 + 2 ^ 23"
      by (simp add: algebra_simps)
    also have "\<dots> \<le> (e + 126) * 2 ^ 23 + 2 ^ 23"
      using lt by simp
    also have "\<dots> \<le> (e + 126) * 2 ^ 23 + m"
      using big by simp
    finally show ?thesis .
  qed
  have "round_mag p q =
      (if 0x7F800000 \<le> (e' + 126) * 2 ^ 23 + m' then 0x7F800000 else (e' + 126) * 2 ^ 23 + m')"
    by (simp add: round_mag_def Let_def e'_def m'_def l_def)
  then have "round_mag p q \<le> (e' + 126) * 2 ^ 23 + m'"
    by (simp split: if_splits)
  with bits show ?thesis
    by simp
qed

lemma uint_float_pack:
  "0 \<le> mag \<Longrightarrow> mag < 2 ^ 31 \<Longrightarrow> uint (float_pack False mag) = mag"
  by (simp add: float_pack_def uint_word_of_int take_bit_int_eq_self)

lemma float_pack_not_negative:
  assumes "0 \<le> mag" "mag < 2 ^ 31"
  shows "\<not> float_sign (float_pack False mag)" "0 \<le> float_key (float_pack False mag)"
  using assms by (simp_all add: float_sign_def float_key_def uint_float_pack)

lemma rne_nonneg: "0 \<le> n \<Longrightarrow> 0 < d \<Longrightarrow> 0 \<le> rne n d"
  by (simp add: rne_def Let_def pos_imp_zdiv_nonneg_iff)

lemma scale2_nonneg: "0 \<le> n \<Longrightarrow> 0 \<le> scale2 n k"
  by (simp add: scale2_def)

lemma round_mag_range:
  assumes "0 \<le> p" "0 < q"
  shows "0 \<le> round_mag p q" "round_mag p q < 2 ^ 31"
proof -
  define e where "e = max (ilog2_frac p q) (- 126)"
  define m where "m = rne (scale2 p (- (e - 23))) (scale2 q (e - 23))"
  have "0 \<le> m"
    unfolding m_def using assms by (intro rne_nonneg scale2_nonneg scale2_pos)
  moreover have "0 \<le> (e + 126) * 2 ^ 23"
    by (simp add: e_def)
  ultimately have "0 \<le> (e + 126) * 2 ^ 23 + m"
    by linarith
  moreover have "round_mag p q =
      (if 0x7F800000 \<le> (e + 126) * 2 ^ 23 + m then 0x7F800000 else (e + 126) * 2 ^ 23 + m)"
    by (simp add: round_mag_def Let_def e_def m_def)
  ultimately show "0 \<le> round_mag p q" "round_mag p q < 2 ^ 31"
    by (simp_all split: if_splits)
qed

lemma float_mant_nonneg: "0 \<le> float_mant a"
  by (simp add: float_mant_def float_fraction_def)

lemma float_mag_fields:
  "uint a mod 2 ^ 31 = float_exponent a * 2 ^ 23 + float_fraction a"
  using zmod_zmult2_eq [of "2 ^ 8" "uint a" "2 ^ 23"]
  by (simp add: float_exponent_def float_fraction_def)

lemma float_fields_range:
  "0 \<le> float_exponent a" "float_exponent a < 256" "0 \<le> float_fraction a"
  "float_fraction a < 2 ^ 23"
  by (simp_all add: float_exponent_def float_fraction_def)

lemma float_mag_mant:
  "uint a mod 2 ^ 31 = (float_expo a + 23 + 126) * 2 ^ 23 + float_mant a"
  using float_mag_fields [of a] by (simp add: float_expo_def float_mant_def algebra_simps)

lemma float_mant_expo_range:
  "float_mant a < 2 ^ 24" "- 126 \<le> float_expo a + 23"
  "float_expo a + 23 = - 126 \<or> 2 ^ 23 \<le> float_mant a"
  using float_fields_range [of a] by (simp_all add: float_mant_def float_expo_def)

lemma float_key_nonneg:
  assumes "0 \<le> float_key a"
  shows "float_key a = uint a mod 2 ^ 31" "float_mant a \<noteq> 0 \<Longrightarrow> \<not> float_sign a"
proof -
  have m: "0 \<le> uint a mod 2 ^ 31"
    by simp
  show k: "float_key a = uint a mod 2 ^ 31"
    using assms m by (simp add: float_key_def split: if_splits)
  show "\<not> float_sign a" if "float_mant a \<noteq> 0"
  proof
    assume "float_sign a"
    with assms m have "uint a mod 2 ^ 31 = 0"
      by (simp add: float_key_def)
    with float_mag_fields [of a] have "float_exponent a * 8388608 + float_fraction a = 0"
      by simp
    with float_fields_range(1,3) [of a] have "float_exponent a = 0 \<and> float_fraction a = 0"
      by arith
    with that show False
      by (simp add: float_mant_def)
  qed
qed

lemma float_pack_zero: "float_key (float_pack s 0) = 0" "\<not> float_is_nan (float_pack s 0)"
  by (cases s; simp add: float_pack_def float_key_def float_sign_def float_is_nan_def
      float_exponent_def float_fraction_def)+

lemma float_pack_not_nan:
  assumes "0 \<le> mag" "mag \<le> 0x7F800000"
  shows "\<not> float_is_nan (float_pack False mag)"
proof
  assume n: "float_is_nan (float_pack False mag)"
  from assms have u: "uint (float_pack False mag) = mag"
    by (intro uint_float_pack) simp_all
  from assms have "mag mod 2 ^ 31 = mag"
    by (simp add: mod_pos_pos_trivial)
  with float_mag_fields [of "float_pack False mag"] n u
  have "mag = 255 * 2 ^ 23 + float_fraction (float_pack False mag)"
    "float_fraction (float_pack False mag) \<noteq> 0"
    by (simp_all add: float_is_nan_def)
  with float_fields_range(3) [of "float_pack False mag"] assms(2) show False
    by simp
qed

lemma round_mag_le_inf: "round_mag p q \<le> 0x7F800000"
  by (simp add: round_mag_def Let_def)

lemma float_le_one_value:
  assumes "0 \<le> float_key b" "float_key b \<le> float_key float_one"
  shows "real_of_int (float_mant b) * 2 powi float_expo b \<le> 1" "float_exponent b \<le> 127"
proof -
  have "float_key float_one = 0x3F800000"
    by (simp add: float_key_def float_one_def float_sign_def)
  with assms float_key_nonneg(1) [OF assms(1)] float_mag_fields [of b]
  have "float_exponent b * 2 ^ 23 + float_fraction b \<le> 127 * 2 ^ 23"
    by simp
  with float_fields_range [of b]
  have c: "float_exponent b \<le> 126 \<or> (float_exponent b = 127 \<and> float_fraction b = 0)"
    by auto
  then show "float_exponent b \<le> 127"
    by auto
  from c show "real_of_int (float_mant b) * 2 powi float_expo b \<le> 1"
  proof
    assume "float_exponent b \<le> 126"
    then have e: "float_expo b \<le> - 24"
      by (simp add: float_expo_def)
    have "real_of_int (float_mant b) \<le> real_of_int (2 ^ 24)"
      using float_mant_expo_range(1) [of b] by (simp only: of_int_le_iff)
    moreover have "(2::real) powi float_expo b \<le> 2 powi (- 24)"
      using e by (intro power_int_increasing) simp_all
    ultimately have "real_of_int (float_mant b) * 2 powi float_expo b
        \<le> real_of_int (2 ^ 24) * 2 powi (- 24)"
      using float_mant_nonneg [of b] by (intro mult_mono) simp_all
    also have "\<dots> = 1"
      by (simp add: power_int_minus)
    finally show ?thesis .
  next
    assume "float_exponent b = 127 \<and> float_fraction b = 0"
    then show ?thesis
      by (simp add: float_mant_def float_expo_def power_int_minus)
  qed
qed

lemma fmul_le_left:
  assumes na: "\<not> float_is_nan a" and ka: "0 \<le> float_key a"
    and nb: "\<not> float_is_nan b" and kb: "0 \<le> float_key b"
    and b1: "float_key b \<le> float_key float_one"
  shows "float_is_nan (fmul a b) \<or> float_le (fmul a b) a"
proof -
  note vb = float_le_one_value [OF kb b1]
  from vb(2) have ib: "\<not> float_is_inf b"
    by (simp add: float_is_inf_def)
  have qn: "float_is_nan float_qnan"
    by (simp add: float_is_nan_def float_exponent_def float_fraction_def float_qnan_def)
  note maga = float_key_nonneg [OF ka] and magb = float_key_nonneg [OF kb]
  have "float_is_nan (fmul a b) \<or>
        (\<not> float_is_nan (fmul a b) \<and> float_key (fmul a b) \<le> float_key a)"
  proof (cases "float_is_inf a")
    case True
    with float_mag_fields [of a]
    have ma: "float_mant a \<noteq> 0" and mg: "uint a mod 2 ^ 31 = 0x7F800000"
      by (simp_all add: float_is_inf_def float_mant_def)
    show ?thesis
    proof (cases "float_is_zero b")
      case True
      with na nb \<open>float_is_inf a\<close> qn show ?thesis
        by (simp add: fmul_def)
    next
      case False
      then have "float_mant b \<noteq> 0"
        using float_fields_range [of b]
        by (auto simp add: float_is_zero_def float_mant_def)
      with magb(2) maga(2) ma have s: "float_sign a = float_sign b"
        by simp
      have za: "\<not> float_is_zero a"
        using True by (simp add: float_is_inf_def float_is_zero_def)
      have f: "fmul a b = float_pack False 0x7F800000"
        using na nb True False s za by (simp add: fmul_def float_inf_def)
      have "float_key (float_pack False 0x7F800000) = 0x7F800000"
        by (simp add: float_key_def float_pack_def float_sign_def)
      moreover have "\<not> float_is_nan (float_pack False 0x7F800000)"
        by (rule float_pack_not_nan) simp_all
      ultimately show ?thesis
        using maga(1) mg by (simp add: f)
    qed
  next
    case False
    define k where "k = float_expo a + float_expo b"
    define P where "P = scale2 (float_mant a * float_mant b) k"
    define Q where "Q = scale2 1 (- k)"
    have f: "fmul a b = float_round (float_sign a \<noteq> float_sign b) P Q"
      using na nb False ib by (simp add: fmul_def Let_def k_def P_def Q_def)
    show ?thesis
    proof (cases "float_mant a * float_mant b = 0")
      case True
      then have "P = 0"
        by (simp add: P_def scale2_def)
      with ka show ?thesis
        by (simp add: f float_round_def float_pack_zero)
    next
      case nz: False
      then have m0: "float_mant a \<noteq> 0" "float_mant b \<noteq> 0"
        by simp_all
      with float_mant_nonneg [of a] float_mant_nonneg [of b]
      have mp: "0 < float_mant a" "0 < float_mant b"
        by simp_all
      then have "0 < float_mant a * float_mant b"
        by simp
      then have P: "0 < P" and Q: "0 < Q"
        unfolding P_def Q_def by (simp_all add: scale2_pos)
      from maga(2) magb(2) m0 have s: "\<not> float_sign a" "\<not> float_sign b"
        by simp_all
      from P have f': "fmul a b = float_pack False (round_mag P Q)"
        by (simp add: f s float_round_def)
      have "real_of_int P / real_of_int Q
              = real_of_int (float_mant a * float_mant b) / real_of_int 1 * 2 powi (- (- k))"
        unfolding P_def Q_def using scale2_ratio [of 1 "float_mant a * float_mant b" "- k"]
        by simp
      also have "\<dots> = real_of_int (float_mant a) * 2 powi float_expo a
                        * (real_of_int (float_mant b) * 2 powi float_expo b)"
        by (simp add: k_def power_int_add)
      also have "\<dots> \<le> real_of_int (float_mant a) * 2 powi float_expo a * 1"
        using vb(1) float_mant_nonneg [of a] by (intro mult_left_mono) simp_all
      finally have "real_of_int P / real_of_int Q
                      \<le> real_of_int (float_mant a) * 2 powi (float_expo a + 23 - 23)"
        by simp
      from round_mag_le [OF P Q float_mant_expo_range(2,1,3) this]
      have le: "round_mag P Q \<le> uint a mod 2 ^ 31"
        using float_mag_mant [of a] by simp
      note r = round_mag_range [of P Q] round_mag_le_inf [of P Q]
      have "0 \<le> P"
        using P by simp
      note r = round_mag_range [OF this Q] round_mag_le_inf [of P Q]
      have "\<not> float_is_nan (float_pack False (round_mag P Q))"
        using r(1,3) by (rule float_pack_not_nan)
      moreover have "float_key (float_pack False (round_mag P Q)) = round_mag P Q"
        using r(1,2) by (simp add: float_key_def float_pack_not_negative uint_float_pack
            mod_pos_pos_trivial)
      ultimately show ?thesis
        using le maga(1) by (simp add: f')
    qed
  qed
  with na show ?thesis
    by (auto simp add: float_le_def)
qed

lemma float_fields_of_mag:
  "float_exponent a = (uint a mod 2 ^ 31) div 2 ^ 23"
  "float_fraction a = (uint a mod 2 ^ 31) mod 2 ^ 23"
  using float_mag_fields [of a] float_fields_range [of a] by simp_all

lemma float_sign_bit: "float_sign f = bit f 31"
proof -
  define k where "k = uint f div 2 ^ 31"
  have "uint f < 2 ^ 32"
    using uint_lt2p [of f] by simp
  then have "k < 2"
    by (simp add: k_def)
  moreover have "0 \<le> k"
    by (simp add: k_def pos_imp_zdiv_nonneg_iff)
  ultimately have "k = 0 \<or> k = 1"
    by arith
  then have "odd k = (0 < k)"
    by auto
  also have "\<dots> = (2 ^ 31 \<le> uint f)"
    unfolding k_def by (rule pos_imp_zdiv_pos_iff) simp
  finally have "odd (uint f div 2 ^ 31) = (2 ^ 31 \<le> uint f)"
    by (simp only: k_def)
  moreover have "bit f 31 = odd (uint f div 2 ^ 31)"
  proof -
    have "bit f 31 = bit (uint f) 31"
      by (simp add: bit_uint_iff)
    then show ?thesis
      by (simp only: bit_iff_odd)
  qed
  ultimately show ?thesis
    by (simp add: float_sign_def)
qed

lemma fneg_sign: "float_sign (fneg d) = (\<not> float_sign d)"
  by (simp add: float_sign_bit fneg_def bit_simps)

lemma fneg_mag: "uint (fneg d) mod 2 ^ 31 = uint d mod 2 ^ 31"
proof -
  have "take_bit 31 (fneg d) = take_bit 31 d"
    by (rule bit_word_eqI) (auto simp add: fneg_def bit_simps)
  then have "take_bit 31 (uint (fneg d)) = take_bit 31 (uint d)"
    by (metis unsigned_take_bit_eq)
  then show ?thesis
    by (simp add: take_bit_eq_mod)
qed

lemma float_pack_fields:
  assumes "0 \<le> mag" "mag < 2 ^ 31"
  shows "float_sign (float_pack s mag) = s" "uint (float_pack s mag) mod 2 ^ 31 = mag"
    "float_key (float_pack s mag) = (if s then - mag else mag)"
proof -
  have u: "uint (float_pack s mag) = (if s then 2 ^ 31 + mag else mag)"
    using assms by (simp add: float_pack_def uint_word_of_int take_bit_int_eq_self)
  show s: "float_sign (float_pack s mag) = s"
    using assms by (simp add: float_sign_def u)
  show m: "uint (float_pack s mag) mod 2 ^ 31 = mag"
    using assms by (simp add: u mod_pos_pos_trivial)
  show "float_key (float_pack s mag) = (if s then - mag else mag)"
    unfolding float_key_def s m by simp
qed

lemma float_pack_exponent:
  assumes "0 \<le> mag" "mag < 2 ^ 31"
  shows "float_exponent (float_pack s mag) = mag div 2 ^ 23"
    "float_fraction (float_pack s mag) = mag mod 2 ^ 23"
  by (simp_all only: float_fields_of_mag float_pack_fields(2) [OF assms])

lemma float_pack_finite:
  assumes "0 \<le> mag" "mag \<le> 0x7F800000"
  shows "\<not> float_is_nan (float_pack s mag)"
proof -
  from assms have r: "0 \<le> mag" "mag < 2 ^ 31"
    by simp_all
  have "mag mod 8388608 = 0" if "mag div 8388608 = 255"
  proof -
    have "mag = 8388608 * (mag div 8388608) + mag mod 8388608"
      by simp
    with that assms(2) have "mag mod 8388608 \<le> 0"
      by simp
    moreover have "0 \<le> mag mod 8388608"
      by simp
    ultimately show ?thesis
      by simp
  qed
  then show ?thesis
    by (auto simp add: float_is_nan_def float_pack_exponent [OF r])
qed

lemma rne_mantissa_le:
  assumes p: "0 < p" and q: "0 < q"
  shows "rne (scale2 p (- (max (ilog2_frac p q) (- 126) - 23)))
             (scale2 q (max (ilog2_frac p q) (- 126) - 23)) \<le> 2 ^ 24"
proof -
  define x where "x = real_of_int p / real_of_int q"
  define l where "l = ilog2_frac p q"
  define e' where "e' = max l (- 126)"
  note lb = ilog2_frac_bounds [OF p q, folded x_def l_def]
  have "x < 2 powi (e' + 1)"
  proof -
    have "(2::real) powi (l + 1) \<le> 2 powi (e' + 1)"
      by (intro power_int_increasing) (simp_all add: e'_def)
    with lb(2) show ?thesis
      by simp
  qed
  then have "x * 2 powi (- (e' - 23)) \<le> 2 powi (e' + 1) * 2 powi (- (e' - 23))"
    by (intro mult_right_mono) simp_all
  also have "\<dots> = real_of_int (2 ^ 24)"
    using power_int_add [of "2::real" "e' + 1" "- (e' - 23)"] by simp
  finally have "rne (scale2 p (- (e' - 23))) (scale2 q (e' - 23)) \<le> 2 ^ 24"
    unfolding x_def by (intro rne_scaled_le q)
  then show ?thesis
    by (simp only: e'_def l_def)
qed

lemma float_of_int_positive:
  assumes "1 \<le> i" "i \<le> INT_MAX"
  shows "\<not> float_is_nan (float_of_int i)" "\<not> float_is_inf (float_of_int i)"
    "\<not> float_is_zero (float_of_int i)" "\<not> float_sign (float_of_int i)"
proof -
  define l where "l = ilog2_frac i 1"
  define m where "m = rne (scale2 i (- (max l (- 126) - 23))) (scale2 1 (max l (- 126) - 23))"
  have i: "0 < i" and one: "0 < (1::int)"
    using assms by simp_all
  note lb = ilog2_frac_bounds [OF i one, folded l_def]
  have "(2::real) powi 0 < 2 powi (l + 1)"
    using lb(2) assms(1) by simp
  then have l0: "0 \<le> l"
    using two_powi_less_cancel [of 0 "l + 1"] by simp
  have "real_of_int i < real_of_int (2 ^ 31)"
    using assms(2) by (simp only: of_int_less_iff) (simp add: INT_MAX_def)
  with lb(1) have "(2::real) powi l < 2 powi 31"
    by simp
  then have l1: "l < 31"
    by (rule two_powi_less_cancel)
  have m1: "m \<le> 2 ^ 24"
    unfolding m_def l_def by (rule rne_mantissa_le [OF i one])
  have m0: "0 \<le> m"
    unfolding m_def using i by (intro rne_nonneg scale2_nonneg scale2_pos) simp_all
  define R where "R = (l + 126) * 2 ^ 23 + m"
  have R: "126 * 2 ^ 23 \<le> R" "R \<le> 158 * 2 ^ 23"
    using l0 l1 m0 m1 by (simp_all add: R_def)
  have "round_mag i 1 = (if 0x7F800000 \<le> R then 0x7F800000 else R)"
    using l0 by (simp add: round_mag_def Let_def l_def [symmetric] m_def R_def max_def)
  with R have "round_mag i 1 = R"
    by simp
  with i assms have f: "float_of_int i = float_pack False R"
    by (simp add: float_of_int_def float_round_def)
  from R have r: "0 \<le> R" "R < 2 ^ 31"
    by simp_all
  from R have "126 \<le> R div 2 ^ 23" "R div 2 ^ 23 \<le> 158"
    by simp_all
  then show "\<not> float_is_nan (float_of_int i)" "\<not> float_is_inf (float_of_int i)"
    "\<not> float_is_zero (float_of_int i)"
    by (simp_all add: f float_is_nan_def float_is_inf_def float_is_zero_def
        float_pack_exponent [OF r])
  show "\<not> float_sign (float_of_int i)"
    by (simp add: f float_pack_fields [OF r])
qed

lemma fneg_fields:
  "float_exponent (fneg d) = float_exponent d" "float_fraction (fneg d) = float_fraction d"
  "float_is_nan (fneg d) = float_is_nan d"
  using fneg_mag [of d] by (simp_all add: float_is_nan_def float_fields_of_mag)

lemma fneg_key: "float_key (fneg d) = - float_key d"
  using fneg_mag [of d] by (simp add: float_key_def fneg_sign)

lemma fmul_nonpos:
  assumes na: "\<not> float_is_nan a" and ka: "float_key a \<le> 0"
    and b: "\<not> float_is_nan b" "\<not> float_is_inf b" "\<not> float_is_zero b" "\<not> float_sign b"
  shows "float_le (fmul a b) float_zero"
proof -
  have z: "\<not> float_is_nan float_zero" "float_key float_zero = 0"
    by (simp_all add: float_zero_def float_is_nan_def float_exponent_def float_fraction_def
        float_key_def float_sign_def)
  have sa: "float_sign a" if "float_mant a \<noteq> 0"
  proof (rule ccontr)
    assume "\<not> float_sign a"
    with ka have "uint a mod 2 ^ 31 \<le> 0"
      by (simp add: float_key_def)
    moreover have "0 \<le> uint a mod 2 ^ 31"
      by simp
    ultimately have "uint a mod 2 ^ 31 = 0"
      by simp
    then have "float_exponent a = 0" "float_fraction a = 0"
      by (simp_all add: float_fields_of_mag)
    with that show False
      by (simp add: float_mant_def)
  qed
  have "\<not> float_is_nan (fmul a b) \<and> float_key (fmul a b) \<le> 0"
  proof (cases "float_is_inf a")
    case True
    then have "float_mant a \<noteq> 0"
      by (simp add: float_is_inf_def float_mant_def)
    then have s: "float_sign a"
      by (rule sa)
    have "\<not> float_is_zero a"
      using True by (simp add: float_is_inf_def float_is_zero_def)
    then have "fmul a b = float_pack True 0x7F800000"
      using na b True s by (simp add: fmul_def float_inf_def)
    moreover have "\<not> float_is_nan (float_pack True 0x7F800000)"
      by (rule float_pack_finite) simp_all
    moreover have "float_key (float_pack True 0x7F800000) = - 0x7F800000"
      by (subst float_pack_fields(3)) simp_all
    ultimately show ?thesis
      by simp
  next
    case False
    define k where "k = float_expo a + float_expo b"
    define P where "P = scale2 (float_mant a * float_mant b) k"
    define Q where "Q = scale2 1 (- k)"
    have f: "fmul a b = float_round (float_sign a \<noteq> float_sign b) P Q"
      using na b False by (simp add: fmul_def Let_def k_def P_def Q_def)
    show ?thesis
    proof (cases "float_mant a * float_mant b = 0")
      case True
      then have "P = 0"
        by (simp add: P_def scale2_def)
      then show ?thesis
        by (simp add: f float_round_def float_pack_zero)
    next
      case nz: False
      then have "float_mant a \<noteq> 0"
        by simp
      then have s: "float_sign a"
        by (rule sa)
      from nz float_mant_nonneg [of a] float_mant_nonneg [of b]
      have "0 < float_mant a * float_mant b"
        by (simp add: zero_less_mult_iff less_le)
      then have P: "0 < P" and Q: "0 < Q"
        unfolding P_def Q_def by (simp_all add: scale2_pos)
      from P have f': "fmul a b = float_pack True (round_mag P Q)"
        using s b(4) by (simp add: f float_round_def)
      have "0 \<le> P"
        using P by simp
      note r = round_mag_range [OF this Q] round_mag_le_inf [of P Q]
      have "\<not> float_is_nan (float_pack True (round_mag P Q))"
        using r(1,3) by (rule float_pack_finite)
      moreover have "float_key (float_pack True (round_mag P Q)) = - round_mag P Q"
        using r(1,2) by (simp add: float_pack_fields)
      ultimately show ?thesis
        using r(1) by (simp add: f')
    qed
  qed
  with z show ?thesis
    by (simp add: float_le_def)
qed

subsection \<open>The transition function\<close>

lemma env_valid_TrueD:
  "env_valid env x y = Some True \<Longrightarrow> 0 \<le> x \<and> x < env_w env \<and> 0 \<le> y \<and> y < env_h env"
  by (simp add: env_valid_def split: if_splits)

lemma env_valid_wf:
  assumes "Env_wf env"
  shows "env_valid env x y =
           Some (0 \<le> x \<and> x < env_w env \<and> 0 \<le> y \<and> y < env_h env \<and> walls env ! nat y ! nat x = 0)"
  using assms by (auto simp add: env_valid_def walls_at_def Env_wf_def)

lemma valid_pos_wf:
  assumes "Env_wf env"
  shows "valid_pos env c \<longleftrightarrow>
           0 \<le> pos_x c \<and> pos_x c < env_w env \<and> 0 \<le> pos_y c \<and> pos_y c < env_h env \<and>
           walls env ! nat (pos_y c) ! nat (pos_x c) = 0"
  unfolding valid_pos_def env_valid_wf [OF assms] by simp

lemma env_step_wf:
  assumes "Env_wf env"
  shows "env_step env s a =
     (let ns = (if valid_pos env (move s a) then move s a else s);
          done = (pos_x ns = goal_x env \<and> pos_y ns = goal_y env)
      in Some (ns, if done then goal_reward env else step_reward env, done))"
proof -
  obtain ok where ok: "env_valid env (pos_x (move s a)) (pos_y (move s a)) = Some ok"
    using env_valid_wf [OF assms] by blast
  then have "valid_pos env (move s a) = ok"
    by (simp add: valid_pos_def)
  then show ?thesis
    by (cases ok) (simp_all add: env_step_def ok Let_def)
qed

lemma Env_wf_env_init: "w \<le> MAX_W \<Longrightarrow> h \<le> MAX_H \<Longrightarrow> Env_wf (env_init w h)"
  by (simp add: Env_wf_def env_init_def walls_set_def MAX_W_def MAX_H_def Let_def list_all_length nth_list_update)

lemma move_cases:
  "a \<in> {0, 1, 2, 3} \<Longrightarrow>
   move p a = (if a = 0 then p\<lparr>pos_y := pos_y p - 1\<rparr>
               else if a = 1 then p\<lparr>pos_x := pos_x p + 1\<rparr>
               else if a = 2 then p\<lparr>pos_y := pos_y p + 1\<rparr>
               else p\<lparr>pos_x := pos_x p - 1\<rparr>)"
  by (auto simp: move_def)

text \<open>
  \<^bold>\<open>C1.\<close>  In an environment that fits the \<open>walls\<close> array, from a valid position \<open>p\<close>
  and for each of the actions 0 (up), 1 (right), 2 (down), 3 (left), \<open>env_step\<close> computes
  the cell moved to (\<open>y - 1\<close>, \<open>x + 1\<close>, \<open>y + 1\<close>, \<open>x - 1\<close>); the position it returns is \<open>p\<close>
  when that cell is out of bounds or a wall, and the cell otherwise; \<open>done\<close> holds exactly
  when the returned position is the goal; the reward is \<open>goal_reward\<close> when \<open>done\<close> and
  \<open>step_reward\<close> otherwise, a bump included.
\<close>

theorem env_step_moves_or_stays:
  assumes "Env_wf env" and "valid_pos env p" and "a \<in> {0, 1, 2, 3}"
  shows "\<exists>np r d. env_step env p a = Some (np, r, d) \<and>
     move p a = (if a = 0 then p\<lparr>pos_y := pos_y p - 1\<rparr>
                 else if a = 1 then p\<lparr>pos_x := pos_x p + 1\<rparr>
                 else if a = 2 then p\<lparr>pos_y := pos_y p + 1\<rparr>
                 else p\<lparr>pos_x := pos_x p - 1\<rparr>) \<and>
     np = (if pos_x (move p a) < 0 \<or> pos_x (move p a) \<ge> env_w env \<or>
              pos_y (move p a) < 0 \<or> pos_y (move p a) \<ge> env_h env \<or>
              walls env ! nat (pos_y (move p a)) ! nat (pos_x (move p a)) \<noteq> 0
           then p else move p a) \<and>
     d = (pos_x np = goal_x env \<and> pos_y np = goal_y env) \<and>
     r = (if d then goal_reward env else step_reward env)"
proof (intro exI conjI)
  let ?np = "if valid_pos env (move p a) then move p a else p"
  let ?d = "pos_x ?np = goal_x env \<and> pos_y ?np = goal_y env"
  show "env_step env p a = Some (?np, if ?d then goal_reward env else step_reward env, ?d)"
    by (simp only: env_step_wf [OF assms(1)] Let_def)
  show "move p a = (if a = 0 then p\<lparr>pos_y := pos_y p - 1\<rparr>
                 else if a = 1 then p\<lparr>pos_x := pos_x p + 1\<rparr>
                 else if a = 2 then p\<lparr>pos_y := pos_y p + 1\<rparr>
                 else p\<lparr>pos_x := pos_x p - 1\<rparr>)"
    by (rule move_cases [OF assms(3)])
  show "?np = (if pos_x (move p a) < 0 \<or> pos_x (move p a) \<ge> env_w env \<or>
              pos_y (move p a) < 0 \<or> pos_y (move p a) \<ge> env_h env \<or>
              walls env ! nat (pos_y (move p a)) ! nat (pos_x (move p a)) \<noteq> 0
           then p else move p a)"
    unfolding valid_pos_wf [OF assms(1)] by (simp add: not_less not_le)
qed (rule refl)+

lemma walls_env_init:
  assumes "y < 10" "x < 10"
  shows "walls (env_init w h) ! y ! x =
           (if w \<ge> 5 \<and> h \<ge> 5 \<and> ((y = 1 \<and> x = 2) \<or> (y = 2 \<and> x = 2) \<or> (y = 3 \<and> x = 2) \<or> (y = 3 \<and> x = 1))
            then 1 else 0)"
  using assms
  by (simp add: env_init_def walls_set_def MAX_W_def MAX_H_def nth_list_update Let_def)

lemma env_init_5_5:
  "env_w (env_init 5 5) = 5" "env_h (env_init 5 5) = 5"
  "goal_x (env_init 5 5) = 4" "goal_y (env_init 5 5) = 4"
  by (simp_all add: env_init_def)

text \<open>
  The default 5 by 5 maze: moving right from (1, 1) bumps into the wall at (2, 1).
\<close>

theorem env_step_moves_or_stays_witness:
  "Env_wf (env_init 5 5) \<and> valid_pos (env_init 5 5) \<lparr>pos_x = 1, pos_y = 1\<rparr> \<and>
   (1::int) \<in> {0, 1, 2, 3} \<and>
   env_step (env_init 5 5) \<lparr>pos_x = 1, pos_y = 1\<rparr> 1
     = Some (\<lparr>pos_x = 1, pos_y = 1\<rparr>, step_reward (env_init 5 5), False)"
proof -
  have wf: "Env_wf (env_init 5 5)"
    by (simp add: Env_wf_env_init MAX_W_def MAX_H_def)
  have v: "valid_pos (env_init 5 5) \<lparr>pos_x = 1, pos_y = 1\<rparr>"
    by (simp add: valid_pos_wf [OF wf] env_init_5_5 walls_env_init)
  have a: "(1::int) \<in> {0, 1, 2, 3}"
    by simp
  obtain np r d where
    s: "env_step (env_init 5 5) \<lparr>pos_x = 1, pos_y = 1\<rparr> 1 = Some (np, r, d)" and
    m: "move \<lparr>pos_x = 1, pos_y = 1\<rparr> 1 = \<lparr>pos_x = 1, pos_y = 1\<rparr>\<lparr>pos_x := pos_x \<lparr>pos_x = 1, pos_y = 1\<rparr> + 1\<rparr>" and
    n: "np = (if pos_x (move \<lparr>pos_x = 1, pos_y = 1\<rparr> 1) < 0 \<or>
                 pos_x (move \<lparr>pos_x = 1, pos_y = 1\<rparr> 1) \<ge> env_w (env_init 5 5) \<or>
                 pos_y (move \<lparr>pos_x = 1, pos_y = 1\<rparr> 1) < 0 \<or>
                 pos_y (move \<lparr>pos_x = 1, pos_y = 1\<rparr> 1) \<ge> env_h (env_init 5 5) \<or>
                 walls (env_init 5 5) ! nat (pos_y (move \<lparr>pos_x = 1, pos_y = 1\<rparr> 1))
                   ! nat (pos_x (move \<lparr>pos_x = 1, pos_y = 1\<rparr> 1)) \<noteq> 0
              then \<lparr>pos_x = 1, pos_y = 1\<rparr> else move \<lparr>pos_x = 1, pos_y = 1\<rparr> 1)" and
    d: "d = (pos_x np = goal_x (env_init 5 5) \<and> pos_y np = goal_y (env_init 5 5))" and
    r: "r = (if d then goal_reward (env_init 5 5) else step_reward (env_init 5 5))"
    using env_step_moves_or_stays [OF wf v a] by auto
  have np: "np = \<lparr>pos_x = 1, pos_y = 1\<rparr>"
    unfolding n m by (simp add: env_init_5_5 walls_env_init)
  have "\<not> d"
    unfolding d np by (simp add: env_init_5_5)
  with s np r wf v a show ?thesis
    by simp
qed



subsection \<open>The greedy action\<close>

lemma q_at_nth:
  "i < length (qm_q m) \<Longrightarrow> q_at m (int i) = Some (qm_q m ! i)"
  by (simp add: q_at_def)

lemma argmax_a_unfold:
  assumes "q_at m (idxQ env s 0) = Some v0" "q_at m (idxQ env s 1) = Some v1"
    "q_at m (idxQ env s 2) = Some v2" "q_at m (idxQ env s 3) = Some v3"
  shows "argmax_a m env s =
    Some (if float_gt v1 v0
          then (if float_gt v2 v1 then (if float_gt v3 v2 then 3 else 2)
                else (if float_gt v3 v1 then 3 else 1))
          else (if float_gt v2 v0 then (if float_gt v3 v2 then 3 else 2)
                else (if float_gt v3 v0 then 3 else 0)))"
proof -
  have 4: "argmax_from m env s 4 b ba = Some ba" for b ba
    by (simp add: argmax_from.simps [of _ _ _ 4] ACTIONS_def)
  have 3: "argmax_from m env s 3 b ba = Some (if float_gt v3 b then 3 else ba)" for b ba
    using 4 by (simp add: argmax_from.simps [of _ _ _ 3] ACTIONS_def assms)
  have 2: "argmax_from m env s 2 b ba =
             Some (if float_gt v2 b then (if float_gt v3 v2 then 3 else 2)
                   else (if float_gt v3 b then 3 else ba))" for b ba
    using 3 by (simp add: argmax_from.simps [of _ _ _ 2] ACTIONS_def assms)
  have 1: "argmax_from m env s 1 b ba =
             Some (if float_gt v1 b
                   then (if float_gt v2 v1 then (if float_gt v3 v2 then 3 else 2)
                         else (if float_gt v3 v1 then 3 else 1))
                   else (if float_gt v2 b then (if float_gt v3 v2 then 3 else 2)
                         else (if float_gt v3 b then 3 else ba)))" for b ba
    using 2 by (simp add: argmax_from.simps [of _ _ _ 1] ACTIONS_def assms)
  show ?thesis
    by (simp add: argmax_a_def assms 1)
qed

lemma q_row_at:
  assumes "0 \<le> s" "nat s * 4 + 3 < length (qm_q m)" "a < 4"
  shows "q_at m (idxQ env s (int a)) = Some (q_row m s ! a)"
proof -
  have "idxQ env s (int a) = int (nat s * 4 + a)"
    using assms by (simp add: idxQ_def ACTIONS_def)
  moreover have "q_row m s ! a = qm_q m ! (nat s * 4 + a)"
    using assms by (simp add: q_row_def del: upt_Suc)
  ultimately show ?thesis
    using assms q_at_nth [of "nat s * 4 + a" m] by simp
qed


lemma upt_small:
  "[0..<4] = [0, 1, 2, 3]" "[0..<3] = [0, 1, 2]" "[0..<2] = [0, 1]" "[0..<1] = [0]"
  by (simp_all add: upt_conv_Cons)

lemma q_row_eq: "q_row m s = [q_row m s ! 0, q_row m s ! 1, q_row m s ! 2, q_row m s ! 3]"
  by (simp add: q_row_def upt_small)

lemma greedy_spec_4:
  "greedy_spec [v0, v1, v2, v3] r \<longleftrightarrow>
     (r = 0 \<and> float_le v0 v0 \<and> float_le v1 v0 \<and> float_le v2 v0 \<and> float_le v3 v0) \<or>
     (r = 1 \<and> float_le v0 v1 \<and> float_le v1 v1 \<and> float_le v2 v1 \<and> float_le v3 v1 \<and>
        \<not> float_le v1 v0) \<or>
     (r = 2 \<and> float_le v0 v2 \<and> float_le v1 v2 \<and> float_le v2 v2 \<and> float_le v3 v2 \<and>
        \<not> float_le v2 v0 \<and> \<not> float_le v2 v1) \<or>
     (r = 3 \<and> float_le v0 v3 \<and> float_le v1 v3 \<and> float_le v2 v3 \<and> float_le v3 v3 \<and>
        \<not> float_le v3 v0 \<and> \<not> float_le v3 v1 \<and> \<not> float_le v3 v2)"
proof -
  consider "r = 0" | "r = 1" | "r = 2" | "r = 3" | "4 \<le> r"
    by linarith
  then show ?thesis
  proof cases
    case 1
    then show ?thesis by (simp add: greedy_spec_def upt_small)
  next
    case 2
    then show ?thesis by (simp add: greedy_spec_def upt_small)
  next
    case 3
    then show ?thesis by (simp add: greedy_spec_def upt_small)
  next
    case 4
    then show ?thesis by (simp add: greedy_spec_def upt_small)
  next
    case 5
    then show ?thesis by (simp add: greedy_spec_def)
  qed
qed

lemma argmax_4_first_max:
  assumes "\<not> float_is_nan v0" "\<not> float_is_nan v1" "\<not> float_is_nan v2" "\<not> float_is_nan v3"
  shows "greedy_spec [v0, v1, v2, v3]
          (if float_gt v1 v0
           then (if float_gt v2 v1 then (if float_gt v3 v2 then 3 else 2)
                 else (if float_gt v3 v1 then 3 else 1))
           else (if float_gt v2 v0 then (if float_gt v3 v2 then 3 else 2)
                 else (if float_gt v3 v0 then 3 else 0)))"
  unfolding greedy_spec_4
  using assms by (simp add: float_gt_def float_lt_key float_le_key)


text \<open>
  \<^bold>\<open>C6.\<close>  For a state \<open>s\<close> of the table: when none of its four action values is a NaN,
  \<open>argmax_a\<close> returns the smallest action index at which the values have their maximum
  (\<open>greedy_spec\<close>); and when the four values are all the same (bit for bit, or equal as
  floats), as in a table of zeros, it returns action 0.
\<close>

theorem argmax_a_first_max:
  assumes "0 \<le> s" and "nat s * 4 + 3 < length (qm_q m)"
  shows "(list_all (\<lambda>v. \<not> float_is_nan v) (q_row m s) \<longrightarrow>
            (\<exists>r. argmax_a m env s = Some (int r) \<and> greedy_spec (q_row m s) r)) \<and>
         (list_all (\<lambda>v. v = q_row m s ! 0 \<or> float_eq v (q_row m s ! 0)) (q_row m s) \<longrightarrow>
            argmax_a m env s = Some 0)"
proof -
  define v0 v1 v2 v3 where v: "v0 = q_row m s ! 0" "v1 = q_row m s ! 1"
    "v2 = q_row m s ! 2" "v3 = q_row m s ! 3"
  have row: "q_row m s = [v0, v1, v2, v3]"
    unfolding v by (rule q_row_eq)
  have at: "q_at m (idxQ env s 0) = Some v0" "q_at m (idxQ env s 1) = Some v1"
    "q_at m (idxQ env s 2) = Some v2" "q_at m (idxQ env s 3) = Some v3"
    using q_row_at [OF assms, of 0 env] q_row_at [OF assms, of 1 env]
      q_row_at [OF assms, of 2 env] q_row_at [OF assms, of 3 env]
    by (simp_all add: v)
  note am = argmax_a_unfold [OF at]
  have 1: "\<exists>r. argmax_a m env s = Some (int r) \<and> greedy_spec (q_row m s) r"
    if "list_all (\<lambda>v. \<not> float_is_nan v) (q_row m s)"
  proof -
    from that have nn: "\<not> float_is_nan v0" "\<not> float_is_nan v1" "\<not> float_is_nan v2"
      "\<not> float_is_nan v3"
      by (simp_all add: row)
    let ?r = "if float_gt v1 v0
           then (if float_gt v2 v1 then (if float_gt v3 v2 then 3 else 2)
                 else (if float_gt v3 v1 then 3 else 1))
           else (if float_gt v2 v0 then (if float_gt v3 v2 then 3 else 2)
                 else (if float_gt v3 v0 then 3 else 0::nat))"
    have "argmax_a m env s = Some (int ?r)"
      unfolding am by simp
    moreover have "greedy_spec (q_row m s) ?r"
      unfolding row by (rule argmax_4_first_max [OF nn])
    ultimately show ?thesis
      by blast
  qed
  have 2: "argmax_a m env s = Some 0"
    if "list_all (\<lambda>v. v = q_row m s ! 0 \<or> float_eq v (q_row m s ! 0)) (q_row m s)"
  proof -
    have "\<not> float_gt w v0" if "w = v0 \<or> float_eq w v0" for w
      using that by (auto simp: float_gt_def float_lt_def float_eq_def)
    moreover from \<open>list_all _ _\<close> have "v1 = v0 \<or> float_eq v1 v0" "v2 = v0 \<or> float_eq v2 v0"
      "v3 = v0 \<or> float_eq v3 v0"
      by (simp_all add: row)
    ultimately have "\<not> float_gt v1 v0" "\<not> float_gt v2 v0" "\<not> float_gt v3 v0"
      by blast+
    then show ?thesis
      unfolding am by simp
  qed
  from 1 2 show ?thesis
    by blast
qed

text \<open>
  Without the exclusion of NaN the claim fails: with the values (NaN, 1.0, 0.0, 0.0)
  \<open>argmax_a\<close> returns action 0, since no comparison with the NaN in \<open>best\<close> succeeds, and
  the value of action 0 is not the maximum.
\<close>

theorem argmax_a_first_max_counterexample:
  "argmax_a m_nan (env_init 2 2) 0 = Some 0 \<and> \<not> greedy_spec (q_row m_nan 0) 0 \<and>
   q_row m_nan 0 = [float_qnan, float_one, float_zero, float_zero]"
proof -
  have row: "q_row m_nan 0 = [float_qnan, float_one, float_zero, float_zero]"
    by (simp add: q_row_def m_nan_def upt_small)
  have at: "q_at m_nan (idxQ (env_init 2 2) 0 0) = Some float_qnan"
    "q_at m_nan (idxQ (env_init 2 2) 0 1) = Some float_one"
    "q_at m_nan (idxQ (env_init 2 2) 0 2) = Some float_zero"
    "q_at m_nan (idxQ (env_init 2 2) 0 3) = Some float_zero"
    by (simp_all add: q_at_def idxQ_def ACTIONS_def m_nan_def)
  have "argmax_a m_nan (env_init 2 2) 0 = Some 0"
    unfolding argmax_a_unfold [OF at]
    by (simp add: float_gt_def float_lt_def float_consts)
  moreover have "\<not> greedy_spec (q_row m_nan 0) 0"
    unfolding row greedy_spec_4 by (simp add: float_le_def float_consts)
  ultimately show ?thesis
    using row by simp
qed


text \<open>With the values (0.0, 1.0, 1.0, 0.0) the first of the two maximal actions is returned.\<close>

theorem argmax_a_first_max_witness:
  "(0::int) \<le> 0 \<and> nat 0 * 4 + 3 < length (qm_q m_tie) \<and>
   list_all (\<lambda>v. \<not> float_is_nan v) (q_row m_tie 0) \<and>
   q_row m_tie 0 = [float_zero, float_one, float_one, float_zero] \<and>
   argmax_a m_tie (env_init 2 2) 0 = Some 1 \<and> greedy_spec (q_row m_tie 0) 1"
proof -
  have s: "(0::int) \<le> 0" and l: "nat 0 * 4 + 3 < length (qm_q m_tie)"
    by (simp_all add: m_tie_def)
  have row: "q_row m_tie 0 = [float_zero, float_one, float_one, float_zero]"
    by (simp add: q_row_def m_tie_def upt_small)
  have nn: "list_all (\<lambda>v. \<not> float_is_nan v) (q_row m_tie 0)"
    by (simp add: row float_consts)
  from argmax_a_first_max [OF s l, of "env_init 2 2"] nn
  obtain r where r: "argmax_a m_tie (env_init 2 2) 0 = Some (int r)"
    "greedy_spec (q_row m_tie 0) r"
    by blast
  from r(2) have "r = 1"
    unfolding row greedy_spec_4 by (simp add: float_le_def float_consts)
  with r s l nn row show ?thesis
    by simp
qed

subsection \<open>Training steps and episodes\<close>


lemma state_id_bounds:
  fixes x y w h :: int
  assumes "0 \<le> x" "x < w" "0 \<le> y" "y < h"
  shows "0 \<le> y * w + x" "y * w + x < w * h"
proof -
  from assms have "0 \<le> w"
    by linarith
  with assms have "0 \<le> y * w"
    by simp
  then show "0 \<le> y * w + x"
    using assms by linarith
  from assms \<open>0 \<le> w\<close> have "y * w \<le> (h - 1) * w"
    by (simp add: mult_right_mono)
  then show "y * w + x < w * h"
    using assms by (simp add: algebra_simps)
qed

lemma state_row_in_table:
  assumes "valid_pos env s" "table_fits env m"
  shows "0 \<le> state_id env (pos_x s) (pos_y s)"
    "nat (state_id env (pos_x s) (pos_y s)) * 4 + 3 < length (qm_q m)"
proof -
  from assms(1) have b: "0 \<le> pos_x s" "pos_x s < env_w env" "0 \<le> pos_y s" "pos_y s < env_h env"
    using env_valid_TrueD [of env "pos_x s" "pos_y s"] by (simp_all add: valid_pos_def)
  note sb = state_id_bounds [OF b]
  show 0: "0 \<le> state_id env (pos_x s) (pos_y s)"
    using sb(1) by (simp add: state_id_def)
  have "state_id env (pos_x s) (pos_y s) * 4 + 3 < env_w env * env_h env * 4"
    using sb(2) by (simp add: state_id_def)
  then have "int (nat (state_id env (pos_x s) (pos_y s)) * 4 + 3) < int (length (qm_q m))"
    using 0 assms(2) by (simp add: table_fits_def ACTIONS_def)
  then show "nat (state_id env (pos_x s) (pos_y s)) * 4 + 3 < length (qm_q m)"
    by linarith
qed

lemma argmax_a_defined:
  assumes "0 \<le> s" "nat s * 4 + 3 < length (qm_q m)"
  shows "\<exists>a. argmax_a m env s = Some a \<and> 0 \<le> a \<and> a < ACTIONS"
proof -
  have at: "q_at m (idxQ env s 0) = Some (q_row m s ! 0)" "q_at m (idxQ env s 1) = Some (q_row m s ! 1)"
    "q_at m (idxQ env s 2) = Some (q_row m s ! 2)" "q_at m (idxQ env s 3) = Some (q_row m s ! 3)"
    using q_row_at [OF assms, of 0 env] q_row_at [OF assms, of 1 env]
      q_row_at [OF assms, of 2 env] q_row_at [OF assms, of 3 env]
    by simp_all
  show ?thesis
    unfolding argmax_a_unfold [OF at] by (simp add: ACTIONS_def)
qed

lemma maxQ_defined:
  assumes "0 \<le> s" "nat s * 4 + 3 < length (qm_q m)"
  shows "\<exists>v. maxQ m env s = Some v"
proof -
  have at: "q_at m (idxQ env s 0) = Some (q_row m s ! 0)" "q_at m (idxQ env s 1) = Some (q_row m s ! 1)"
    "q_at m (idxQ env s 2) = Some (q_row m s ! 2)" "q_at m (idxQ env s 3) = Some (q_row m s ! 3)"
    using q_row_at [OF assms, of 0 env] q_row_at [OF assms, of 1 env]
      q_row_at [OF assms, of 2 env] q_row_at [OF assms, of 3 env]
    by simp_all
  have 4: "maxQ_from m env s 4 b = Some b" for b
    by (simp add: maxQ_from.simps [of _ _ _ 4] ACTIONS_def)
  have 3: "\<exists>v. maxQ_from m env s 3 b = Some v" for b
    using 4 by (simp add: maxQ_from.simps [of _ _ _ 3] ACTIONS_def at)
  have 2: "\<exists>v. maxQ_from m env s 2 b = Some v" for b
    using 3 by (simp add: maxQ_from.simps [of _ _ _ 2] ACTIONS_def at)
  have 1: "\<exists>v. maxQ_from m env s 1 b = Some v" for b
    using 2 by (simp add: maxQ_from.simps [of _ _ _ 1] ACTIONS_def at)
  show ?thesis
    using 1 by (simp add: maxQ_def at)
qed

lemma c_rem_range: "0 \<le> r \<Longrightarrow> 0 \<le> c_rem r ACTIONS \<and> c_rem r ACTIONS < ACTIONS"
  by (simp add: c_rem_def ACTIONS_def sgn_if)

lemma rng_ok_rand: "rng_ok g \<Longrightarrow> 0 \<le> fst (rand g) \<and> rng_ok (snd (rand g))"
  by (simp add: rng_ok_def rand_def)

lemma eps_greedy_action_defined:
  assumes "0 \<le> s" "nat s * 4 + 3 < length (qm_q m)" "rng_ok g"
  shows "\<exists>a g'. eps_greedy_action rand_max m env s eps g = Some (a, g') \<and>
           0 \<le> a \<and> a < ACTIONS \<and> rng_ok g'"
proof -
  obtain r g1 where r: "rand g = (r, g1)"
    by (cases "rand g")
  obtain r2 g2 where r2: "rand g1 = (r2, g2)"
    by (cases "rand g1")
  from rng_ok_rand [OF assms(3)] r have g1: "rng_ok g1"
    by simp
  from rng_ok_rand [OF g1] r2 have g2: "0 \<le> r2" "rng_ok g2"
    by simp_all
  obtain a where a: "argmax_a m env s = Some a" "0 \<le> a" "a < ACTIONS"
    using argmax_a_defined [OF assms(1,2)] by blast
  show ?thesis
    using c_rem_range [OF g2(1)] g1 g2 a
    by (simp add: eps_greedy_action_def r r2)
qed


lemma env_step_valid:
  assumes "Env_wf env" and "valid_pos env p"
  shows "\<exists>np r d. env_step env p a = Some (np, r, d) \<and> valid_pos env np \<and>
           (np = move p a \<or> np = p) \<and> d = (pos_x np = goal_x env \<and> pos_y np = goal_y env)"
  unfolding env_step_wf [OF assms(1)] Let_def
  using assms(2) by simp

lemma train_step_result:
  assumes wf: "Env_wf env" and v: "valid_pos env s" and t: "table_fits env m" and g: "rng_ok g"
  shows "\<exists>a g' ns r done boot.
     eps_greedy_action rand_max m env (state_id env (pos_x s) (pos_y s)) eps g = Some (a, g') \<and>
     0 \<le> a \<and> a < ACTIONS \<and> rng_ok g' \<and>
     env_step env s a = Some (ns, r, done) \<and> valid_pos env ns \<and>
     (if done then boot = float_zero
      else \<exists>mx. maxQ m env (state_id env (pos_x ns) (pos_y ns)) = Some mx \<and> boot = fmul gamma mx) \<and>
     0 \<le> idxQ env (state_id env (pos_x s) (pos_y s)) a \<and>
     nat (idxQ env (state_id env (pos_x s) (pos_y s)) a) < length (qm_q m) \<and>
     train_step rand_max env alpha gamma eps m s g =
       Some (m\<lparr>qm_q := (qm_q m)[nat (idxQ env (state_id env (pos_x s) (pos_y s)) a) :=
                 fadd (qm_q m ! nat (idxQ env (state_id env (pos_x s) (pos_y s)) a))
                   (fmul alpha (fsub (fadd r boot)
                      (qm_q m ! nat (idxQ env (state_id env (pos_x s) (pos_y s)) a))))]\<rparr>,
             ns, r, done, g')"
proof -
  let ?sid = "state_id env (pos_x s) (pos_y s)"
  note row = state_row_in_table [OF v t]
  obtain a g' where a: "eps_greedy_action rand_max m env ?sid eps g = Some (a, g')"
    "0 \<le> a" "a < ACTIONS" "rng_ok g'"
    using eps_greedy_action_defined [OF row g] by blast
  obtain ns r d where st: "env_step env s a = Some (ns, r, d)" "valid_pos env ns"
    using env_step_valid [OF wf v] by blast
  let ?nsid = "state_id env (pos_x ns) (pos_y ns)"
  obtain mx where mx: "maxQ m env ?nsid = Some mx"
    using maxQ_defined [OF state_row_in_table [OF st(2) t]] by blast
  define boot where "boot = (if d then float_zero else fmul gamma mx)"
  have i0: "0 \<le> idxQ env ?sid a"
    using row(1) a(2) by (simp add: idxQ_def ACTIONS_def)
  have i1: "nat (idxQ env ?sid a) < length (qm_q m)"
    using row a(2,3) by (simp add: idxQ_def ACTIONS_def nat_add_distrib nat_mult_distrib)
  have qa: "q_at m (idxQ env ?sid a) = Some (qm_q m ! nat (idxQ env ?sid a))"
    using i0 i1 by (simp add: q_at_def)
  have "train_step rand_max env alpha gamma eps m s g =
       Some (m\<lparr>qm_q := (qm_q m)[nat (idxQ env ?sid a) :=
                 fadd (qm_q m ! nat (idxQ env ?sid a))
                   (fmul alpha (fsub (fadd r boot) (qm_q m ! nat (idxQ env ?sid a))))]\<rparr>,
             ns, r, d, g')"
    by (simp add: train_step_def a(1) st(1) mx qa boot_def Let_def)
  moreover have "if d then boot = float_zero
      else \<exists>mx. maxQ m env ?nsid = Some mx \<and> boot = fmul gamma mx"
    by (simp add: boot_def mx)
  ultimately show ?thesis
    using a st i0 i1 by blast
qed


lemma train_step_inv:
  assumes "Env_wf env" "valid_pos env s" "table_fits env m" "rng_ok g"
  shows "\<exists>m' ns r d g'. train_step rand_max env alpha gamma eps m s g = Some (m', ns, r, d, g') \<and>
           valid_pos env ns \<and> table_fits env m' \<and> rng_ok g' \<and>
           d = (pos_x ns = goal_x env \<and> pos_y ns = goal_y env)"
proof -
  obtain a g' ns r d boot where
    st: "env_step env s a = Some (ns, r, d)" "valid_pos env ns" "rng_ok g'" and
    ts: "train_step rand_max env alpha gamma eps m s g =
       Some (m\<lparr>qm_q := (qm_q m)[nat (idxQ env (state_id env (pos_x s) (pos_y s)) a) :=
                 fadd (qm_q m ! nat (idxQ env (state_id env (pos_x s) (pos_y s)) a))
                   (fmul alpha (fsub (fadd r boot)
                      (qm_q m ! nat (idxQ env (state_id env (pos_x s) (pos_y s)) a))))]\<rparr>,
             ns, r, d, g')"
    using train_step_result [OF assms, of rand_max eps gamma alpha] by blast
  from env_step_valid [OF assms(1,2), of a] st(1)
  have "d = (pos_x ns = goal_x env \<and> pos_y ns = goal_y env)"
    by simp
  with st ts assms(3) show ?thesis
    by (simp add: table_fits_def)
qed

lemma train_episode_bounded:
  assumes "Env_wf env" "valid_pos env s" "table_fits env m" "rng_ok g"
  shows "\<exists>m' s' steps' ret' g'.
           train_episode rand_max env alpha gamma eps m s steps ret g
             = Some (m', s', steps', ret', g') \<and>
           steps < steps' \<and> steps' \<le> max (steps + 1) (step_limit env) \<and>
           ((pos_x s' = goal_x env \<and> pos_y s' = goal_y env) \<or> step_limit env \<le> steps') \<and>
           valid_pos env s' \<and> table_fits env m' \<and> rng_ok g'"
  using assms
proof (induction rand_max env alpha gamma eps m s steps ret g rule: train_episode.induct)
  case (1 rand_max env alpha gamma eps m s steps ret g)
  obtain m' ns r d g' where
    st: "train_step rand_max env alpha gamma eps m s g = Some (m', ns, r, d, g')" and
    inv: "valid_pos env ns" "table_fits env m'" "rng_ok g'" and
    d: "d = (pos_x ns = goal_x env \<and> pos_y ns = goal_y env)"
    using train_step_inv [OF "1.prems", of rand_max alpha gamma eps] by blast
  show ?case
  proof (cases "d \<or> step_limit env \<le> steps + 1")
    case True
    then have "train_episode rand_max env alpha gamma eps m s steps ret g
             = Some (m', ns, steps + 1, fadd ret r, g')"
      by (subst train_episode.simps) (simp add: st)
    with True inv d show ?thesis
      by auto
  next
    case False
    then have eq: "train_episode rand_max env alpha gamma eps m s steps ret g
             = train_episode rand_max env alpha gamma eps m' ns (steps + 1) (fadd ret r) g'"
      by (subst train_episode.simps) (simp add: st)
    from "1.IH" [OF st refl refl refl refl False "1.prems"(1) inv]
    show ?thesis
      unfolding eq using False by fastforce
  qed
qed

lemma play_episode_bounded:
  assumes "Env_wf env" "valid_pos env s" "table_fits env m"
  shows "\<exists>s' steps' ret'.
           play_episode env m s steps ret = Some (s', steps', ret') \<and>
           steps < steps' \<and> steps' \<le> max (steps + 1) (step_limit env) \<and>
           ((pos_x s' = goal_x env \<and> pos_y s' = goal_y env) \<or> step_limit env \<le> steps') \<and>
           valid_pos env s'"
  using assms
proof (induction env m s steps ret rule: play_episode.induct)
  case (1 env m s steps ret)
  obtain a where a: "argmax_a m env (state_id env (pos_x s) (pos_y s)) = Some a"
    using argmax_a_defined [OF state_row_in_table [OF "1.prems"(2,3)]] by blast
  obtain ns r d where st: "env_step env s a = Some (ns, r, d)" and
    inv: "valid_pos env ns" and d: "d = (pos_x ns = goal_x env \<and> pos_y ns = goal_y env)"
    using env_step_valid [OF "1.prems"(1,2), of a] by blast
  show ?case
  proof (cases "d \<or> step_limit env \<le> steps + 1")
    case True
    then have "play_episode env m s steps ret = Some (ns, steps + 1, fadd ret r)"
      by (subst play_episode.simps) (simp add: a st)
    with True inv d show ?thesis
      by auto
  next
    case False
    then have eq: "play_episode env m s steps ret = play_episode env m ns (steps + 1) (fadd ret r)"
      by (subst play_episode.simps) (simp add: a st)
    from "1.IH" [OF a st refl refl False "1.prems"(1) inv "1.prems"(3)]
    show ?thesis
      unfolding eq using False by fastforce
  qed
qed


lemma train_passes_Suc:
  assumes "train_step rand_max env alpha gamma eps m s g = Some (m', ns, r, d, g')"
  shows "train_passes rand_max env alpha gamma eps (Suc n) (m, s, ret, d0, g)
           = train_passes rand_max env alpha gamma eps n (m', ns, fadd ret r, d, g')"
  by (simp add: assms)

lemma train_episode_exit:
  assumes "Env_wf env" "valid_pos env s" "table_fits env m" "rng_ok g"
    and "train_episode rand_max env alpha gamma eps m s steps ret g
           = Some (m', s', steps', ret', g')"
  shows "steps < steps' \<and>
         train_passes rand_max env alpha gamma eps (nat (steps' - steps)) (m, s, ret, d0, g)
           = Some (m', s', ret', pos_x s' = goal_x env \<and> pos_y s' = goal_y env, g') \<and>
         ((pos_x s' = goal_x env \<and> pos_y s' = goal_y env) \<or> step_limit env \<le> steps') \<and>
         (\<forall>j. 0 < j \<and> j < nat (steps' - steps) \<longrightarrow>
              steps + int j < step_limit env \<and>
              (\<exists>mj sj rj gj.
                 train_passes rand_max env alpha gamma eps j (m, s, ret, d0, g)
                   = Some (mj, sj, rj, False, gj)))"
  using assms
proof (induction rand_max env alpha gamma eps m s steps ret g arbitrary: d0
    rule: train_episode.induct)
  case (1 rand_max env alpha gamma eps m s steps ret g)
  obtain m1 ns r d g1 where
    st: "train_step rand_max env alpha gamma eps m s g = Some (m1, ns, r, d, g1)" and
    inv: "valid_pos env ns" "table_fits env m1" "rng_ok g1" and
    d: "d = (pos_x ns = goal_x env \<and> pos_y ns = goal_y env)"
    using train_step_inv [OF "1.prems"(1-4), of rand_max alpha gamma eps] by blast
  note suc = train_passes_Suc [OF st]
  show ?case
  proof (cases "d \<or> step_limit env \<le> steps + 1")
    case True
    then have "train_episode rand_max env alpha gamma eps m s steps ret g
             = Some (m1, ns, steps + 1, fadd ret r, g1)"
      by (subst train_episode.simps) (simp add: st)
    with "1.prems"(5) have r: "m' = m1" "s' = ns" "steps' = steps + 1" "ret' = fadd ret r"
      "g' = g1"
      by simp_all
    have "nat (steps' - steps) = Suc 0"
      by (simp add: r)
    with True d show ?thesis
      by (simp add: st r)
  next
    case False
    then have eq: "train_episode rand_max env alpha gamma eps m s steps ret g
             = train_episode rand_max env alpha gamma eps m1 ns (steps + 1) (fadd ret r) g1"
      by (subst train_episode.simps) (simp add: st)
    from False have nd: "\<not> d" and lim: "steps + 1 < step_limit env"
      by simp_all
    from "1.prems"(5) have te:
      "train_episode rand_max env alpha gamma eps m1 ns (steps + 1) (fadd ret r) g1
         = Some (m', s', steps', ret', g')"
      by (simp only: eq)
    note ih = "1.IH" [OF st refl refl refl refl False "1.prems"(1) inv te, of d]
    from ih have lt: "steps + 1 < steps'"
      by (rule conjunct1)
    define k where "k = nat (steps' - (steps + 1))"
    from lt have n: "nat (steps' - steps) = Suc k"
      by (simp add: k_def)
    from ih have tp: "train_passes rand_max env alpha gamma eps k (m1, ns, fadd ret r, d, g1)
           = Some (m', s', ret', pos_x s' = goal_x env \<and> pos_y s' = goal_y env, g')"
      unfolding k_def by (elim conjE)
    from ih have ex: "(pos_x s' = goal_x env \<and> pos_y s' = goal_y env) \<or> step_limit env \<le> steps'"
      by (elim conjE)
    from ih have bf: "\<forall>j. 0 < j \<and> j < k \<longrightarrow>
              steps + 1 + int j < step_limit env \<and>
              (\<exists>mj sj rj gj.
                 train_passes rand_max env alpha gamma eps j (m1, ns, fadd ret r, d, g1)
                   = Some (mj, sj, rj, False, gj))"
      unfolding k_def by (elim conjE)
    have before: "steps + int j < step_limit env \<and>
                (\<exists>mj sj rj gj.
                   train_passes rand_max env alpha gamma eps j (m, s, ret, d0, g)
                     = Some (mj, sj, rj, False, gj))"
      if j: "0 < j \<and> j < Suc k" for j
    proof (cases j)
      case 0
      with j show ?thesis
        by simp
    next
      case (Suc i)
      show ?thesis
      proof (cases "i = 0")
        case True
        with nd lim show ?thesis
          by (simp add: Suc st)
      next
        case False
        with Suc j have "0 < i \<and> i < k"
          by simp
        with bf have "steps + 1 + int i < step_limit env \<and>
              (\<exists>mj sj rj gj.
                 train_passes rand_max env alpha gamma eps i (m1, ns, fadd ret r, d, g1)
                   = Some (mj, sj, rj, False, gj))"
          by (elim allE impE)
        then show ?thesis
          unfolding Suc suc by (simp add: add.assoc)
      qed
    qed
    have "steps < steps'"
      using lt by simp
    moreover have "train_passes rand_max env alpha gamma eps (nat (steps' - steps))
                     (m, s, ret, d0, g)
           = Some (m', s', ret', pos_x s' = goal_x env \<and> pos_y s' = goal_y env, g')"
      unfolding n suc by (rule tp)
    moreover have "\<forall>j. 0 < j \<and> j < nat (steps' - steps) \<longrightarrow>
              steps + int j < step_limit env \<and>
              (\<exists>mj sj rj gj.
                 train_passes rand_max env alpha gamma eps j (m, s, ret, d0, g)
                   = Some (mj, sj, rj, False, gj))"
      unfolding n using before by (intro allI impI)
    ultimately show ?thesis
      using ex by (intro conjI)
  qed
qed

lemma play_passes_Suc:
  assumes "argmax_a m env (state_id env (pos_x s) (pos_y s)) = Some a"
    and "env_step env s a = Some (ns, r, d)"
  shows "play_passes env m (Suc n) (s, ret, d0) = play_passes env m n (ns, fadd ret r, d)"
  by (simp add: assms)

lemma play_episode_exit:
  assumes "Env_wf env" "valid_pos env s" "table_fits env m"
    and "play_episode env m s steps ret = Some (s', steps', ret')"
  shows "steps < steps' \<and>
         play_passes env m (nat (steps' - steps)) (s, ret, d0)
           = Some (s', ret', pos_x s' = goal_x env \<and> pos_y s' = goal_y env) \<and>
         ((pos_x s' = goal_x env \<and> pos_y s' = goal_y env) \<or> step_limit env \<le> steps') \<and>
         (\<forall>j. 0 < j \<and> j < nat (steps' - steps) \<longrightarrow>
              steps + int j < step_limit env \<and>
              (\<exists>sj rj. play_passes env m j (s, ret, d0) = Some (sj, rj, False)))"
  using assms
proof (induction env m s steps ret arbitrary: d0 rule: play_episode.induct)
  case (1 env m s steps ret)
  obtain a where a: "argmax_a m env (state_id env (pos_x s) (pos_y s)) = Some a"
    using argmax_a_defined [OF state_row_in_table [OF "1.prems"(2,3)]] by blast
  obtain ns r d where st: "env_step env s a = Some (ns, r, d)" and
    inv: "valid_pos env ns" and d: "d = (pos_x ns = goal_x env \<and> pos_y ns = goal_y env)"
    using env_step_valid [OF "1.prems"(1,2), of a] by blast
  note suc = play_passes_Suc [OF a st]
  show ?case
  proof (cases "d \<or> step_limit env \<le> steps + 1")
    case True
    then have "play_episode env m s steps ret = Some (ns, steps + 1, fadd ret r)"
      by (subst play_episode.simps) (simp add: a st)
    with "1.prems"(4) have r: "s' = ns" "steps' = steps + 1" "ret' = fadd ret r"
      by simp_all
    have "nat (steps' - steps) = Suc 0"
      by (simp add: r)
    with True d show ?thesis
      by (simp add: a st r)
  next
    case False
    then have eq: "play_episode env m s steps ret
                     = play_episode env m ns (steps + 1) (fadd ret r)"
      by (subst play_episode.simps) (simp add: a st)
    from False have nd: "\<not> d" and lim: "steps + 1 < step_limit env"
      by simp_all
    from "1.prems"(4) have te:
      "play_episode env m ns (steps + 1) (fadd ret r) = Some (s', steps', ret')"
      by (simp only: eq)
    note ih = "1.IH" [OF a st refl refl False "1.prems"(1) inv "1.prems"(3) te, of d]
    from ih have lt: "steps + 1 < steps'"
      by (rule conjunct1)
    define k where "k = nat (steps' - (steps + 1))"
    from lt have n: "nat (steps' - steps) = Suc k"
      by (simp add: k_def)
    from ih have tp: "play_passes env m k (ns, fadd ret r, d)
           = Some (s', ret', pos_x s' = goal_x env \<and> pos_y s' = goal_y env)"
      unfolding k_def by (elim conjE)
    from ih have ex: "(pos_x s' = goal_x env \<and> pos_y s' = goal_y env) \<or> step_limit env \<le> steps'"
      by (elim conjE)
    from ih have bf: "\<forall>j. 0 < j \<and> j < k \<longrightarrow>
              steps + 1 + int j < step_limit env \<and>
              (\<exists>sj rj. play_passes env m j (ns, fadd ret r, d) = Some (sj, rj, False))"
      unfolding k_def by (elim conjE)
    have before: "steps + int j < step_limit env \<and>
                (\<exists>sj rj. play_passes env m j (s, ret, d0) = Some (sj, rj, False))"
      if j: "0 < j \<and> j < Suc k" for j
    proof (cases j)
      case 0
      with j show ?thesis
        by simp
    next
      case (Suc i)
      show ?thesis
      proof (cases "i = 0")
        case True
        with nd lim show ?thesis
          by (simp add: Suc a st)
      next
        case False
        with Suc j have "0 < i \<and> i < k"
          by simp
        with bf have "steps + 1 + int i < step_limit env \<and>
              (\<exists>sj rj. play_passes env m i (ns, fadd ret r, d) = Some (sj, rj, False))"
          by (elim allE impE)
        then show ?thesis
          unfolding Suc suc by (simp add: add.assoc)
      qed
    qed
    have "steps < steps'"
      using lt by simp
    moreover have "play_passes env m (nat (steps' - steps)) (s, ret, d0)
           = Some (s', ret', pos_x s' = goal_x env \<and> pos_y s' = goal_y env)"
      unfolding n suc by (rule tp)
    moreover have "\<forall>j. 0 < j \<and> j < nat (steps' - steps) \<longrightarrow>
              steps + int j < step_limit env \<and>
              (\<exists>sj rj. play_passes env m j (s, ret, d0) = Some (sj, rj, False))"
      unfolding n using before by (intro allI impI)
    ultimately show ?thesis
      using ex by (intro conjI)
  qed
qed

lemma train_from_bounded:
  assumes "Env_wf env" "valid_pos env \<lparr>pos_x = start_x env, pos_y = start_y env\<rparr>"
    "table_fits env m" "rng_ok g" "1 \<le> step_limit env" "episodes < INT_MAX"
  shows "\<exists>m' g' stats.
           train_from expf rand_max env episodes alpha gamma eps_start eps_min eps_decay ep m g
             = Some (m', g', stats) \<and>
           table_fits env m' \<and> rng_ok g' \<and>
           int (length stats) = max 0 (episodes + 1 - ep) \<and>
           list_all (\<lambda>(steps, ret). 1 \<le> steps \<and> steps \<le> step_limit env) stats"
  using assms
proof (induction expf rand_max env episodes alpha gamma eps_start eps_min eps_decay ep m g
    rule: train_from.induct)
  case (1 expf rand_max env episodes alpha gamma eps_start eps_min eps_decay ep m g)
  show ?case
  proof (cases "ep \<le> episodes")
    case False
    then show ?thesis
      using "1.prems" by (subst train_from.simps) simp
  next
    case True
    let ?eps = "train_epsilon expf eps_start eps_min eps_decay ep"
    obtain m' s' steps' ret' g' where
      ep: "train_episode rand_max env alpha gamma ?eps m
             \<lparr>pos_x = start_x env, pos_y = start_y env\<rparr> 0 float_zero g
           = Some (m', s', steps', ret', g')" and
      b: "0 < steps'" "steps' \<le> max (0 + 1) (step_limit env)" and
      inv: "table_fits env m'" "rng_ok g'"
      using train_episode_bounded [OF "1.prems"(1-4), of rand_max alpha gamma ?eps 0 float_zero]
      by blast
    from True "1.prems"(6) have ne: "ep \<noteq> INT_MAX"
      by simp
    obtain m'' g'' stats where
      rest: "train_from expf rand_max env episodes alpha gamma eps_start eps_min eps_decay
               (ep + 1) m' g' = Some (m'', g'', stats)" and
      r: "table_fits env m''" "rng_ok g''" "int (length stats) = max 0 (episodes + 1 - (ep + 1))"
        "list_all (\<lambda>(steps, ret). 1 \<le> steps \<and> steps \<le> step_limit env) stats"
      using "1.IH" [OF True ep refl refl refl refl ne "1.prems"(1,2) inv "1.prems"(5,6)]
      by blast
    have "train_from expf rand_max env episodes alpha gamma eps_start eps_min eps_decay ep m g
            = Some (m'', g'', (steps', ret') # stats)"
      by (subst train_from.simps) (simp add: True ep ne rest)
    with r b True "1.prems"(5) show ?thesis
      by simp
  qed
qed

lemma play_from_bounded:
  assumes "Env_wf env" "valid_pos env \<lparr>pos_x = start_x env, pos_y = start_y env\<rparr>"
    "table_fits env m" "1 \<le> step_limit env" "episodes < INT_MAX"
  shows "\<exists>shown.
           play_from env m episodes ep = Some shown \<and>
           int (length shown) = max 0 (episodes + 1 - ep) \<and>
           list_all (\<lambda>(ret, steps). 1 \<le> steps \<and> steps \<le> step_limit env) shown"
  using assms
proof (induction env m episodes ep rule: play_from.induct)
  case (1 env m episodes ep)
  show ?case
  proof (cases "ep \<le> episodes")
    case False
    then show ?thesis
      by (subst play_from.simps) simp
  next
    case True
    obtain s' steps' ret' where
      ep: "play_episode env m \<lparr>pos_x = start_x env, pos_y = start_y env\<rparr> 0 float_zero
           = Some (s', steps', ret')" and
      b: "0 < steps'" "steps' \<le> max (0 + 1) (step_limit env)"
      using play_episode_bounded [OF "1.prems"(1-3), of 0 float_zero]
      by blast
    from True "1.prems"(5) have ne: "ep \<noteq> INT_MAX"
      by simp
    obtain shown where
      rest: "play_from env m episodes (ep + 1) = Some shown" and
      r: "int (length shown) = max 0 (episodes + 1 - (ep + 1))"
        "list_all (\<lambda>(ret, steps). 1 \<le> steps \<and> steps \<le> step_limit env) shown"
      using "1.IH" [OF True ep refl refl ne "1.prems"]
      by blast
    have "play_from env m episodes ep = Some ((ret', steps') # shown)"
      by (subst play_from.simps) (simp add: True ep ne rest)
    with r b True "1.prems"(4) show ?thesis
      by simp
  qed
qed


lemma grid_area:
  fixes w h :: int
  assumes "2 \<le> w" "w \<le> 10" "2 \<le> h" "h \<le> 10"
  shows "4 \<le> w * h" "w * h \<le> 100"
proof -
  have "2 * 2 \<le> w * h"
    using assms by (intro mult_mono) auto
  then show "4 \<le> w * h"
    by simp
  have "w * h \<le> 10 * 10"
    using assms by (intro mult_mono) auto
  then show "w * h \<le> 100"
    by simp
qed

lemma env_init_invariants:
  assumes "2 \<le> w" "w \<le> MAX_W" "2 \<le> h" "h \<le> MAX_H"
  shows "Env_wf (env_init w h)"
    "valid_pos (env_init w h) \<lparr>pos_x = start_x (env_init w h), pos_y = start_y (env_init w h)\<rparr>"
    "1 \<le> step_limit (env_init w h)"
proof -
  show wf: "Env_wf (env_init w h)"
    using assms by (simp add: Env_wf_env_init)
  have "walls (env_init w h) ! 0 ! 0 = 0"
    by (simp add: walls_env_init)
  moreover have "start_x (env_init w h) = 0" "start_y (env_init w h) = 0"
    "env_w (env_init w h) = w" "env_h (env_init w h) = h"
    by (simp_all add: env_init_def)
  ultimately show "valid_pos (env_init w h)
      \<lparr>pos_x = start_x (env_init w h), pos_y = start_y (env_init w h)\<rparr>"
    using assms by (simp add: valid_pos_wf [OF wf])
  show "1 \<le> step_limit (env_init w h)"
    using grid_area(1) [of w h] assms by (simp add: env_init_def MAX_W_def MAX_H_def)
qed

lemma int32_wrap_id: "- (2 ^ 31) \<le> v \<Longrightarrow> v < 2 ^ 31 \<Longrightarrow> int32_wrap v = v"
  by (simp add: int32_wrap_def mod_pos_pos_trivial)

lemma size_t_of_int_id: "0 \<le> v \<Longrightarrow> v \<le> SIZE_MAX \<Longrightarrow> size_t_of_int v = v"
  by (simp add: size_t_of_int_def mod_pos_pos_trivial)

lemma qsize_small:
  assumes "0 \<le> w * h" "w * h \<le> 100"
  shows "qsize w h = w * h * ACTIONS"
proof -
  define a where "a = w * h"
  with assms have a: "0 \<le> a" "a \<le> 100"
    by simp_all
  have "int32_wrap (a * 4) = a * 4"
    using a by (intro int32_wrap_id) simp_all
  moreover have "size_t_of_int (a * 4) = a * 4"
    using a by (intro size_t_of_int_id) (simp_all add: SIZE_MAX_def)
  ultimately show ?thesis
    by (simp add: qsize_def a_def ACTIONS_def)
qed

lemma qmodel_alloc_fits:
  assumes "2 \<le> w" "w \<le> MAX_W" "2 \<le> h" "h \<le> MAX_H"
  shows "\<exists>m. qmodel_alloc w h = Inr m \<and> table_fits (env_init w h) m \<and> qm_w m = w \<and> qm_h m = h"
proof -
  have a: "4 \<le> w * h" "w * h \<le> 100"
    using grid_area [of w h] assms by (simp_all add: MAX_W_def MAX_H_def)
  then have q: "qsize w h = w * h * ACTIONS"
    by (intro qsize_small) auto
  have "env_w (env_init w h) = w" "env_h (env_init w h) = h"
    by (simp_all add: env_init_def)
  then show ?thesis
    using a by (simp add: qmodel_alloc_def q table_fits_def SIZE_MAX_def ACTIONS_def)
qed

text \<open>
  \<^bold>\<open>C2.\<close>  One pass through the loop body of \<open>train\<close>, from a valid position and with a
  table that fits the grid: with \<open>a\<close> the action selected for the current state id and
  \<open>(ns, r, done)\<close> the result of \<open>env_step\<close>, the TD target is \<open>r + boot\<close> where \<open>boot\<close> is
  \<open>0.0\<close> when \<open>done\<close> and \<open>gamma * maxQ\<close> of the next state id otherwise; slot
  \<open>i = idxQ(s_id, a)\<close> becomes its old value plus \<open>alpha * (td_target - old value)\<close>, and
  no other slot, nor the size of the table, changes.
\<close>

theorem train_step_update:
  assumes "Env_wf env" and "valid_pos env s" and "table_fits env m" and "rng_ok g"
  shows "\<exists>a g' ns r done boot i m'.
     eps_greedy_action rand_max m env (state_id env (pos_x s) (pos_y s)) eps g = Some (a, g') \<and>
     env_step env s a = Some (ns, r, done) \<and>
     (if done then boot = float_zero
      else \<exists>mx. maxQ m env (state_id env (pos_x ns) (pos_y ns)) = Some mx \<and> boot = fmul gamma mx) \<and>
     i = nat (idxQ env (state_id env (pos_x s) (pos_y s)) a) \<and> i < length (qm_q m) \<and>
     train_step rand_max env alpha gamma eps m s g = Some (m', ns, r, done, g') \<and>
     qm_q m' ! i = fadd (qm_q m ! i) (fmul alpha (fsub (fadd r boot) (qm_q m ! i))) \<and>
     (\<forall>j. j \<noteq> i \<longrightarrow> qm_q m' ! j = qm_q m ! j) \<and>
     length (qm_q m') = length (qm_q m) \<and> qm_w m' = qm_w m \<and> qm_h m' = qm_h m"
proof -
  let ?sid = "state_id env (pos_x s) (pos_y s)"
  obtain a g' ns r d boot where
    1: "eps_greedy_action rand_max m env ?sid eps g = Some (a, g')"
       "env_step env s a = Some (ns, r, d)"
       "if d then boot = float_zero
        else \<exists>mx. maxQ m env (state_id env (pos_x ns) (pos_y ns)) = Some mx \<and> boot = fmul gamma mx"
       "nat (idxQ env ?sid a) < length (qm_q m)" and
    2: "train_step rand_max env alpha gamma eps m s g =
       Some (m\<lparr>qm_q := (qm_q m)[nat (idxQ env ?sid a) :=
                 fadd (qm_q m ! nat (idxQ env ?sid a))
                   (fmul alpha (fsub (fadd r boot) (qm_q m ! nat (idxQ env ?sid a))))]\<rparr>,
             ns, r, d, g')"
    using train_step_result [OF assms, of rand_max eps gamma alpha] by blast
  let ?i = "nat (idxQ env ?sid a)"
  let ?m' = "m\<lparr>qm_q := (qm_q m)[?i :=
                 fadd (qm_q m ! ?i) (fmul alpha (fsub (fadd r boot) (qm_q m ! ?i)))]\<rparr>"
  have "qm_q ?m' ! ?i = fadd (qm_q m ! ?i) (fmul alpha (fsub (fadd r boot) (qm_q m ! ?i)))"
    using 1(4) by simp
  moreover have "\<forall>j. j \<noteq> ?i \<longrightarrow> qm_q ?m' ! j = qm_q m ! j"
    by simp
  moreover have "length (qm_q ?m') = length (qm_q m) \<and> qm_w ?m' = qm_w m \<and> qm_h ?m' = qm_h m"
    by simp
  ultimately show ?thesis
    using 1 2 by blast
qed


lemma example_2x2:
  "Env_wf (env_init 2 2)"
  "valid_pos (env_init 2 2) \<lparr>pos_x = 0, pos_y = 0\<rparr>"
  "valid_pos (env_init 2 2) \<lparr>pos_x = start_x (env_init 2 2), pos_y = start_y (env_init 2 2)\<rparr>"
  "table_fits (env_init 2 2) q_zero_2x2"
  "step_limit (env_init 2 2) = 16"
proof -
  have b: "(2::int) \<le> 2" "2 \<le> MAX_W" "2 \<le> MAX_H"
    by (simp_all add: MAX_W_def MAX_H_def)
  note i = env_init_invariants [OF b(1,2) b(1,3)]
  show "Env_wf (env_init 2 2)"
    by (rule i(1))
  show "valid_pos (env_init 2 2)
      \<lparr>pos_x = start_x (env_init 2 2), pos_y = start_y (env_init 2 2)\<rparr>"
    by (rule i(2))
  then show "valid_pos (env_init 2 2) \<lparr>pos_x = 0, pos_y = 0\<rparr>"
    by (simp add: env_init_def)
  show "table_fits (env_init 2 2) q_zero_2x2"
    by (simp add: table_fits_def q_zero_2x2_def env_init_def ACTIONS_def)
  show "step_limit (env_init 2 2) = 16"
    by (simp add: env_init_def)
qed

text \<open>
  The first step of a run on the 2 by 2 grid with \<open>alpha = 0.1\<close>, \<open>gamma = 0.99\<close>,
  \<open>eps = 1.0\<close> and \<open>rand()\<close> returning 5: the action is \<open>5 % 4 = 1\<close> (right), the reward
  \<open>-1.0\<close>, and slot 1 becomes \<open>0.0 + 0.1 * (-1.0 + 0.99 * 0.0 - 0.0) = -0.1\<close>.
\<close>

theorem train_step_update_witness:
  "Env_wf (env_init 2 2) \<and> valid_pos (env_init 2 2) \<lparr>pos_x = 0, pos_y = 0\<rparr> \<and>
   table_fits (env_init 2 2) q_zero_2x2 \<and> rng_ok (\<lambda>n. 5) \<and>
   (\<exists>m' g'.
      train_step 2147483647 (env_init 2 2) 0x3DCCCCCD 0x3F7D70A4 float_one q_zero_2x2
        \<lparr>pos_x = 0, pos_y = 0\<rparr> (\<lambda>n. 5)
        = Some (m', \<lparr>pos_x = 1, pos_y = 0\<rparr>, 0xBF800000, False, g') \<and>
      qm_q m' = (qm_q q_zero_2x2)[1 := 0xBDCCCCCD])"
proof -
  let ?env = "env_init 2 2" and ?s = "\<lparr>pos_x = 0, pos_y = 0\<rparr>" and ?g = "\<lambda>n::nat. 5::int"
  have g: "rng_ok ?g"
    by (simp add: rng_ok_def)
  obtain a g' ns r d boot i m' where
    ts: "train_step 2147483647 ?env 0x3DCCCCCD 0x3F7D70A4 float_one q_zero_2x2 ?s ?g
          = Some (m', ns, r, d, g')" and
    len: "length (qm_q m') = length (qm_q q_zero_2x2)"
    using train_step_update [OF example_2x2(1,2,4) g, of 2147483647 float_one "0x3F7D70A4" "0x3DCCCCCD"]
    by blast
  have ev: "map_option (\<lambda>(m, ns, r, d, g). (qm_q m, ns, r, d))
         (train_step 2147483647 ?env 0x3DCCCCCD 0x3F7D70A4 float_one q_zero_2x2 ?s ?g)
       = Some ([0, 0xBDCCCCCD, 0, 0, 0, 0, 0, 0, 0, 0, 0, 0, 0, 0, 0, 0],
               \<lparr>pos_x = 1, pos_y = 0\<rparr>, 0xBF800000, False)"
    by code_simp
  have "(qm_q q_zero_2x2)[1 := 0xBDCCCCCD]
          = [0, 0xBDCCCCCD, 0, 0, 0, 0, 0, 0, 0, 0, 0, 0, 0, 0, 0, 0]"
    by code_simp
  with ev ts have "ns = \<lparr>pos_x = 1, pos_y = 0\<rparr>" "r = 0xBF800000" "\<not> d"
    "qm_q m' = (qm_q q_zero_2x2)[1 := 0xBDCCCCCD]"
    by simp_all
  with ts example_2x2 g show ?thesis
    by auto
qed

text \<open>
  \<^bold>\<open>C9.\<close>  With a step limit of at least 1 (\<open>env_init\<close> sets \<open>w * h * 4\<close>), a valid start
  cell and a table that fits the grid: \<open>train\<close> and \<open>play_greedy\<close> return, and every episode
  they run takes at most \<open>step_limit\<close> steps.  Each inner loop is left after the first pass
  whose \<open>done\<close> is true or whose number is \<open>step_limit\<close>: it returns the state after
  \<open>steps\<close> passes through its body, with \<open>1 \<le> steps \<le> step_limit\<close>; that pass has \<open>done\<close> true
  (the agent is on the goal) or \<open>steps = step_limit\<close>; and \<open>done\<close> is false after every
  pass before it.
\<close>

theorem episodes_bounded:
  assumes "Env_wf env" and "valid_pos env \<lparr>pos_x = start_x env, pos_y = start_y env\<rparr>"
    and "table_fits env m" and "rng_ok g" and "1 \<le> step_limit env" and "episodes < INT_MAX"
  shows "(\<exists>m' g' stats.
            train expf rand_max env m episodes alpha gamma eps_start eps_min eps_decay g
              = Some (m', g', stats) \<and>
            int (length stats) = max 0 episodes \<and>
            list_all (\<lambda>(steps, ret). steps \<le> step_limit env) stats) \<and>
         (\<exists>shown.
            play_greedy env m episodes = Some shown \<and>
            int (length shown) = max 0 episodes \<and>
            list_all (\<lambda>(ret, steps). steps \<le> step_limit env) shown) \<and>
         (\<exists>m' s' steps' ret' g'.
            train_episode rand_max env alpha gamma eps m
              \<lparr>pos_x = start_x env, pos_y = start_y env\<rparr> 0 float_zero g
              = Some (m', s', steps', ret', g') \<and>
            1 \<le> steps' \<and> steps' \<le> step_limit env \<and>
            train_passes rand_max env alpha gamma eps (nat steps')
              (m, \<lparr>pos_x = start_x env, pos_y = start_y env\<rparr>, float_zero, False, g)
              = Some (m', s', ret', pos_x s' = goal_x env \<and> pos_y s' = goal_y env, g') \<and>
            ((pos_x s' = goal_x env \<and> pos_y s' = goal_y env) \<or> steps' = step_limit env) \<and>
            (\<forall>j. 0 < j \<and> j < nat steps' \<longrightarrow>
               (\<exists>mj sj rj gj.
                  train_passes rand_max env alpha gamma eps j
                    (m, \<lparr>pos_x = start_x env, pos_y = start_y env\<rparr>, float_zero, False, g)
                    = Some (mj, sj, rj, False, gj)))) \<and>
         (\<exists>s' steps' ret'.
            play_episode env m \<lparr>pos_x = start_x env, pos_y = start_y env\<rparr> 0 float_zero
              = Some (s', steps', ret') \<and>
            1 \<le> steps' \<and> steps' \<le> step_limit env \<and>
            play_passes env m (nat steps')
              (\<lparr>pos_x = start_x env, pos_y = start_y env\<rparr>, float_zero, False)
              = Some (s', ret', pos_x s' = goal_x env \<and> pos_y s' = goal_y env) \<and>
            ((pos_x s' = goal_x env \<and> pos_y s' = goal_y env) \<or> steps' = step_limit env) \<and>
            (\<forall>j. 0 < j \<and> j < nat steps' \<longrightarrow>
               (\<exists>sj rj.
                  play_passes env m j
                    (\<lparr>pos_x = start_x env, pos_y = start_y env\<rparr>, float_zero, False)
                    = Some (sj, rj, False))))"
proof (intro conjI)
  have weaken: "list_all (\<lambda>(a, b). P a b) xs \<Longrightarrow> (\<And>a b. P a b \<Longrightarrow> Q a b) \<Longrightarrow>
      list_all (\<lambda>(a, b). Q a b) xs" for P Q :: "'a \<Rightarrow> 'b \<Rightarrow> bool" and xs
    by (induction xs) auto
  from train_from_bounded [OF assms, of expf rand_max alpha gamma eps_start eps_min eps_decay 1]
  obtain m' g' stats where
    t: "train expf rand_max env m episodes alpha gamma eps_start eps_min eps_decay g
          = Some (m', g', stats)"
      "int (length stats) = max 0 episodes"
      "list_all (\<lambda>(steps, ret). 1 \<le> steps \<and> steps \<le> step_limit env) stats"
    unfolding train_def by auto
  from weaken [OF t(3), of "\<lambda>steps ret. steps \<le> step_limit env"] t(1,2)
  show "\<exists>m' g' stats.
            train expf rand_max env m episodes alpha gamma eps_start eps_min eps_decay g
              = Some (m', g', stats) \<and>
            int (length stats) = max 0 episodes \<and>
            list_all (\<lambda>(steps, ret). steps \<le> step_limit env) stats"
    by simp
  from play_from_bounded [OF assms(1-3,5,6), of 1]
  obtain shown where
    p: "play_greedy env m episodes = Some shown" "int (length shown) = max 0 episodes"
      "list_all (\<lambda>(ret, steps). 1 \<le> steps \<and> steps \<le> step_limit env) shown"
    unfolding play_greedy_def by auto
  from weaken [OF p(3), of "\<lambda>ret steps. steps \<le> step_limit env"] p(1,2)
  show "\<exists>shown.
            play_greedy env m episodes = Some shown \<and>
            int (length shown) = max 0 episodes \<and>
            list_all (\<lambda>(ret, steps). steps \<le> step_limit env) shown"
    by simp
  let ?start = "\<lparr>pos_x = start_x env, pos_y = start_y env\<rparr>"
  show "\<exists>m' s' steps' ret' g'.
            train_episode rand_max env alpha gamma eps m ?start 0 float_zero g
              = Some (m', s', steps', ret', g') \<and>
            1 \<le> steps' \<and> steps' \<le> step_limit env \<and>
            train_passes rand_max env alpha gamma eps (nat steps')
              (m, ?start, float_zero, False, g)
              = Some (m', s', ret', pos_x s' = goal_x env \<and> pos_y s' = goal_y env, g') \<and>
            ((pos_x s' = goal_x env \<and> pos_y s' = goal_y env) \<or> steps' = step_limit env) \<and>
            (\<forall>j. 0 < j \<and> j < nat steps' \<longrightarrow>
               (\<exists>mj sj rj gj.
                  train_passes rand_max env alpha gamma eps j (m, ?start, float_zero, False, g)
                    = Some (mj, sj, rj, False, gj)))"
  proof -
    from train_episode_bounded [OF assms(1-4), of rand_max alpha gamma eps 0 float_zero]
    obtain m' s' steps' ret' g' where
      te: "train_episode rand_max env alpha gamma eps m ?start 0 float_zero g
             = Some (m', s', steps', ret', g')" and
      b: "0 < steps'" "steps' \<le> max (0 + 1) (step_limit env)"
      by blast
    note x = train_episode_exit [OF assms(1-4) te, of False]
    from x have tp: "train_passes rand_max env alpha gamma eps (nat (steps' - 0))
              (m, ?start, float_zero, False, g)
              = Some (m', s', ret', pos_x s' = goal_x env \<and> pos_y s' = goal_y env, g')"
      by (elim conjE)
    from x have ex: "(pos_x s' = goal_x env \<and> pos_y s' = goal_y env) \<or> step_limit env \<le> steps'"
      by (elim conjE)
    from x have bf: "\<forall>j. 0 < j \<and> j < nat (steps' - 0) \<longrightarrow>
              0 + int j < step_limit env \<and>
              (\<exists>mj sj rj gj.
                 train_passes rand_max env alpha gamma eps j (m, ?start, float_zero, False, g)
                   = Some (mj, sj, rj, False, gj))"
      by (elim conjE)
    from b assms(5) have r: "1 \<le> steps'" "steps' \<le> step_limit env"
      by simp_all
    with ex have e: "(pos_x s' = goal_x env \<and> pos_y s' = goal_y env) \<or> steps' = step_limit env"
      by auto
    from bf have "\<forall>j. 0 < j \<and> j < nat steps' \<longrightarrow>
               (\<exists>mj sj rj gj.
                  train_passes rand_max env alpha gamma eps j (m, ?start, float_zero, False, g)
                    = Some (mj, sj, rj, False, gj))"
      by simp
    with te r tp e show ?thesis
      by (intro exI [of _ m'] exI [of _ s'] exI [of _ steps'] exI [of _ ret'] exI [of _ g'])
        simp
  qed
  show "\<exists>s' steps' ret'.
            play_episode env m ?start 0 float_zero = Some (s', steps', ret') \<and>
            1 \<le> steps' \<and> steps' \<le> step_limit env \<and>
            play_passes env m (nat steps') (?start, float_zero, False)
              = Some (s', ret', pos_x s' = goal_x env \<and> pos_y s' = goal_y env) \<and>
            ((pos_x s' = goal_x env \<and> pos_y s' = goal_y env) \<or> steps' = step_limit env) \<and>
            (\<forall>j. 0 < j \<and> j < nat steps' \<longrightarrow>
               (\<exists>sj rj. play_passes env m j (?start, float_zero, False)
                    = Some (sj, rj, False)))"
  proof -
    from play_episode_bounded [OF assms(1-3), of 0 float_zero]
    obtain s' steps' ret' where
      te: "play_episode env m ?start 0 float_zero = Some (s', steps', ret')" and
      b: "0 < steps'" "steps' \<le> max (0 + 1) (step_limit env)"
      by blast
    note x = play_episode_exit [OF assms(1-3) te, of False]
    from x have tp: "play_passes env m (nat (steps' - 0)) (?start, float_zero, False)
              = Some (s', ret', pos_x s' = goal_x env \<and> pos_y s' = goal_y env)"
      by (elim conjE)
    from x have ex: "(pos_x s' = goal_x env \<and> pos_y s' = goal_y env) \<or> step_limit env \<le> steps'"
      by (elim conjE)
    from x have bf: "\<forall>j. 0 < j \<and> j < nat (steps' - 0) \<longrightarrow>
              0 + int j < step_limit env \<and>
              (\<exists>sj rj. play_passes env m j (?start, float_zero, False) = Some (sj, rj, False))"
      by (elim conjE)
    from b assms(5) have r: "1 \<le> steps'" "steps' \<le> step_limit env"
      by simp_all
    with ex have e: "(pos_x s' = goal_x env \<and> pos_y s' = goal_y env) \<or> steps' = step_limit env"
      by auto
    from bf have "\<forall>j. 0 < j \<and> j < nat steps' \<longrightarrow>
               (\<exists>sj rj. play_passes env m j (?start, float_zero, False) = Some (sj, rj, False))"
      by simp
    with te r tp e show ?thesis
      by (intro exI [of _ s'] exI [of _ steps'] exI [of _ ret']) simp
  qed
qed

lemma example_path:
  "table_fits (env_init 2 2) m_path"
  by (simp add: table_fits_def m_path_def env_init_def ACTIONS_def)

text \<open>
  On the 2 by 2 grid the greedy policy of the fresh table always moves up and bumps: both
  episodes of \<open>play_greedy\<close> end at the step limit 16, with return \<open>-16.0\<close>.  The greedy
  policy of \<open>m_path\<close> goes right and then down onto the goal: \<open>done\<close> is false after the first
  pass and true after the second, where the loop is left with 14 steps to spare and the
  return \<open>-1.0 + 10.0 = 9.0\<close>; so is the loop of \<open>train\<close> when \<open>eps\<close> is zero.
\<close>

theorem episodes_bounded_witness:
  "Env_wf (env_init 2 2) \<and>
   valid_pos (env_init 2 2) \<lparr>pos_x = start_x (env_init 2 2), pos_y = start_y (env_init 2 2)\<rparr> \<and>
   table_fits (env_init 2 2) q_zero_2x2 \<and> table_fits (env_init 2 2) m_path \<and>
   rng_ok (\<lambda>n. 5) \<and> 1 \<le> step_limit (env_init 2 2) \<and> 2 < INT_MAX \<and>
   (\<forall>expf. \<exists>m' g' stats.
      train expf 2147483647 (env_init 2 2) q_zero_2x2 2 0x3DCCCCCD 0x3F7D70A4 float_one
        0x3D4CCCCD 0x3B23D70A (\<lambda>n. 5) = Some (m', g', stats) \<and>
      int (length stats) = 2 \<and>
      list_all (\<lambda>(steps, ret). steps \<le> step_limit (env_init 2 2)) stats) \<and>
   play_greedy (env_init 2 2) q_zero_2x2 2 = Some [(0xC1800000, 16), (0xC1800000, 16)] \<and>
   step_limit (env_init 2 2) = 16 \<and>
   (\<exists>s' steps' ret'.
      play_episode (env_init 2 2) m_path \<lparr>pos_x = 0, pos_y = 0\<rparr> 0 float_zero
        = Some (s', steps', ret') \<and>
      s' = \<lparr>pos_x = 1, pos_y = 1\<rparr> \<and> steps' = 2 \<and> ret' = 0x41100000 \<and>
      play_passes (env_init 2 2) m_path (nat steps') (\<lparr>pos_x = 0, pos_y = 0\<rparr>, float_zero, False)
        = Some (s', ret', True)) \<and>
   play_passes (env_init 2 2) m_path (Suc 0) (\<lparr>pos_x = 0, pos_y = 0\<rparr>, float_zero, False)
     = Some (\<lparr>pos_x = 1, pos_y = 0\<rparr>, 0xBF800000, False) \<and>
   play_greedy (env_init 2 2) m_path 2 = Some [(0x41100000, 2), (0x41100000, 2)] \<and>
   map_option (\<lambda>(m, s, steps, ret, g). (s, steps, ret))
     (train_episode 2147483647 (env_init 2 2) 0x3DCCCCCD 0x3F7D70A4 float_zero m_path
        \<lparr>pos_x = 0, pos_y = 0\<rparr> 0 float_zero (\<lambda>n. 5))
     = Some (\<lparr>pos_x = 1, pos_y = 1\<rparr>, 2, 0x41100000)"
proof -
  have g: "rng_ok (\<lambda>n. 5)"
    by (simp add: rng_ok_def)
  have l: "1 \<le> step_limit (env_init 2 2)" and e: "2 < INT_MAX"
    by (simp_all add: example_2x2 INT_MAX_def)
  note b = episodes_bounded [OF example_2x2(1,3,4) g l e]
  have t: "\<exists>m' g' stats.
      train expf 2147483647 (env_init 2 2) q_zero_2x2 2 0x3DCCCCCD 0x3F7D70A4 float_one
        0x3D4CCCCD 0x3B23D70A (\<lambda>n. 5) = Some (m', g', stats) \<and>
      int (length stats) = 2 \<and>
      list_all (\<lambda>(steps, ret). steps \<le> step_limit (env_init 2 2)) stats" for expf
    using b [of expf 2147483647 "0x3DCCCCCD" "0x3F7D70A4" float_one "0x3D4CCCCD" "0x3B23D70A"]
    by simp
  have p: "play_greedy (env_init 2 2) q_zero_2x2 2 = Some [(0xC1800000, 16), (0xC1800000, 16)]"
    by code_simp
  have s: "start_x (env_init 2 2) = 0" "start_y (env_init 2 2) = 0"
    "goal_x (env_init 2 2) = 1" "goal_y (env_init 2 2) = 1"
    by (simp_all add: env_init_def)
  have pe: "play_episode (env_init 2 2) m_path \<lparr>pos_x = 0, pos_y = 0\<rparr> 0 float_zero
              = Some (\<lparr>pos_x = 1, pos_y = 1\<rparr>, 2, 0x41100000)"
    by code_simp
  from episodes_bounded [OF example_2x2(1,3) example_path g l e]
  obtain s' steps' ret' where
    x: "play_episode (env_init 2 2) m_path \<lparr>pos_x = 0, pos_y = 0\<rparr> 0 float_zero
          = Some (s', steps', ret')"
       "play_passes (env_init 2 2) m_path (nat steps') (\<lparr>pos_x = 0, pos_y = 0\<rparr>, float_zero, False)
          = Some (s', ret', pos_x s' = 1 \<and> pos_y s' = 1)"
    unfolding s by blast
  from x(1) pe have r: "s' = \<lparr>pos_x = 1, pos_y = 1\<rparr>" "steps' = 2" "ret' = 0x41100000"
    by simp_all
  from x r have y: "\<exists>s' steps' ret'.
      play_episode (env_init 2 2) m_path \<lparr>pos_x = 0, pos_y = 0\<rparr> 0 float_zero
        = Some (s', steps', ret') \<and>
      s' = \<lparr>pos_x = 1, pos_y = 1\<rparr> \<and> steps' = 2 \<and> ret' = 0x41100000 \<and>
      play_passes (env_init 2 2) m_path (nat steps') (\<lparr>pos_x = 0, pos_y = 0\<rparr>, float_zero, False)
        = Some (s', ret', True)"
    by simp
  have p1: "play_passes (env_init 2 2) m_path (Suc 0) (\<lparr>pos_x = 0, pos_y = 0\<rparr>, float_zero, False)
     = Some (\<lparr>pos_x = 1, pos_y = 0\<rparr>, 0xBF800000, False)"
    by code_simp
  have pg: "play_greedy (env_init 2 2) m_path 2 = Some [(0x41100000, 2), (0x41100000, 2)]"
    by code_simp
  have tr: "map_option (\<lambda>(m, s, steps, ret, g). (s, steps, ret))
     (train_episode 2147483647 (env_init 2 2) 0x3DCCCCCD 0x3F7D70A4 float_zero m_path
        \<lparr>pos_x = 0, pos_y = 0\<rparr> 0 float_zero (\<lambda>n. 5))
     = Some (\<lparr>pos_x = 1, pos_y = 1\<rparr>, 2, 0x41100000)"
    by code_simp
  from t p g l e example_2x2 example_path y p1 pg tr show ?thesis
    by blast
qed

subsection \<open>Saving and loading\<close>















lemma length_items4: "length (items4 bs) = length bs div 4"
  by (induction bs rule: items4.induct) simp_all

lemma load_qtable_unopened: "files fs path = None \<Longrightarrow> load_qtable fs path = Inl LoadFailed"
  by (simp add: load_qtable_def)

lemma load_qtable_short_header:
  "files fs path = Some bs \<Longrightarrow> length bs < 8 \<Longrightarrow> load_qtable fs path = Inl LoadFailed"
  by (auto simp add: load_qtable_def)

lemma load_qtable_short_data:
  assumes "files fs path = Some bs" "8 \<le> length bs"
    and "(length bs - 8) div 4 < nat (qsize (bytes_int32 (take 4 bs)) (bytes_int32 (take 4 (drop 4 bs))))"
  shows "load_qtable fs path = Inl LoadFailed \<or> load_qtable fs path = Inl ExitOOM"
  using assms
  by (simp add: load_qtable_def Let_def qmodel_alloc_def length_items4)

lemma load_qtable_loaded:
  assumes "files fs path = Some bs" "load_qtable fs path = Inr m"
  shows "8 \<le> length bs \<and>
         qm_w m = bytes_int32 (take 4 bs) \<and> qm_h m = bytes_int32 (take 4 (drop 4 bs)) \<and>
         qm_q m = map le32_word (take (nat (qsize (qm_w m) (qm_h m))) (items4 (drop 8 bs))) \<and>
         int (length (qm_q m)) = qsize (qm_w m) (qm_h m)"
  using assms
  by (auto simp add: load_qtable_def Let_def qmodel_alloc_def qsize_def size_t_of_int_def
      SIZE_MAX_def split: if_splits)

text \<open>
  \<^bold>\<open>C10.\<close>  \<open>load_qtable\<close> fails for a file that cannot be opened
  (\<open>load_qtable_unopened\<close>) or has fewer than 8 bytes (\<open>load_qtable_short_header\<close>), and for
  one with fewer floats than \<open>(size_t)(w*h*ACTIONS)\<close> as the program computes it
  (\<open>load_qtable_short_data\<close>); what it loads is what the file holds
  (\<open>load_qtable_loaded\<close>), and the grid is checked by \<open>main_table\<close> only.  But the count is
  computed in \<open>int\<close>: the file \<open>big.bin\<close> declares \<open>1073741825\<close> by \<open>1\<close>, that is
  4294967300 floats, the product wraps to 4, and the file, which holds 4 floats, is
  loaded although it is truncated.
\<close>

theorem load_qtable_overflow:
  "files fs_overflow ''big.bin'' =
     Some ([0x01, 0x00, 0x00, 0x40, 0x01, 0x00, 0x00, 0x00] @ replicate 16 0) \<and>
   load_qtable fs_overflow ''big.bin'' = Inr \<lparr>qm_w = 1073741825, qm_h = 1, qm_q = [0, 0, 0, 0]\<rparr> \<and>
   1073741825 * 1 * ACTIONS = 4294967300"
proof -
  have "load_qtable fs_overflow ''big.bin''
          = Inr \<lparr>qm_w = 1073741825, qm_h = 1, qm_q = [0, 0, 0, 0]\<rparr>"
    by code_simp
  then show ?thesis
    by (simp add: fs_overflow_def ACTIONS_def)
qed

subsection \<open>The epsilon schedule\<close>

lemma fmaxf_lower: "\<not> float_is_nan a \<Longrightarrow> float_le a (fmaxf a b)"
  by (simp add: fmaxf_def float_le_def float_lt_def)

lemma fmaxf_upper:
  "float_le a c \<Longrightarrow> float_is_nan b \<or> float_le b c \<Longrightarrow> float_le (fmaxf a b) c"
  by (auto simp add: fmaxf_def float_le_def float_lt_def)

lemma fmaxf_above:
  assumes "float_lt c a"
  shows "float_lt c (fmaxf a b)"
  using assms by (auto simp add: fmaxf_def float_lt_def)

lemma train_epsilon_upper:
  assumes m: "float_le eps_min eps_start" and s: "float_le float_zero eps_start"
    and d: "float_le float_zero eps_decay" and ep: "1 \<le> ep" "ep \<le> INT_MAX"
    and ex: "\<And>x. float_le x float_zero \<Longrightarrow>
               float_le float_zero (expf x) \<and> float_le (expf x) float_one"
  shows "float_le (train_epsilon expf eps_start eps_min eps_decay ep) eps_start"
proof -
  have z: "float_key float_zero = 0"
    by (simp add: float_zero_def float_key_def float_sign_def)
  define x where "x = fmul (fneg eps_decay) (float_of_int ep)"
  from d have "\<not> float_is_nan (fneg eps_decay)" "float_key (fneg eps_decay) \<le> 0"
    by (simp_all add: float_le_def fneg_fields fneg_key z)
  then have "float_le x float_zero"
    unfolding x_def by (rule fmul_nonpos) (rule float_of_int_positive [OF ep])+
  from ex [OF this] have t: "\<not> float_is_nan (expf x)" "0 \<le> float_key (expf x)"
    "float_key (expf x) \<le> float_key float_one"
    by (simp_all add: float_le_def z)
  from s have e: "\<not> float_is_nan eps_start" "0 \<le> float_key eps_start"
    by (simp_all add: float_le_def z)
  have "float_is_nan (fmul eps_start (expf x)) \<or> float_le (fmul eps_start (expf x)) eps_start"
    using e t by (rule fmul_le_left)
  with m show ?thesis
    unfolding train_epsilon_def x_def [symmetric] by (rule fmaxf_upper)
qed

text \<open>
  \<^bold>\<open>C7.\<close>  \<open>train\<close> runs its episodes from index 1, and episode \<open>ep\<close> uses
  \<open>fmaxf(eps_min, eps_start * expf(-eps_decay * (float) ep))\<close>.  That value is never
  below \<open>eps_min\<close> when \<open>eps_min\<close> is not a NaN.  It is never above \<open>eps_start\<close> when
  \<open>eps_min \<le> eps_start\<close>, \<open>0 \<le> eps_start\<close>, \<open>0 \<le> eps_decay\<close>, the episode index is an \<open>int\<close>
  from 1 on, and the library's \<open>expf\<close> maps every argument that is not positive into
  \<open>[0, 1]\<close>: the argument of \<open>expf\<close> is then not positive, and the product
  \<open>eps_start * expf(...)\<close>, rounded to binary32, is not above \<open>eps_start\<close>.
\<close>

theorem train_epsilon_bounds:
  "train_epsilon expf eps_start eps_min eps_decay ep
     = fmaxf eps_min (fmul eps_start (expf (fmul (fneg eps_decay) (float_of_int ep)))) \<and>
   train expf rand_max env m episodes alpha gamma eps_start eps_min eps_decay g
     = train_from expf rand_max env episodes alpha gamma eps_start eps_min eps_decay 1 m g \<and>
   (ep \<le> episodes \<longrightarrow>
      train_from expf rand_max env episodes alpha gamma eps_start eps_min eps_decay ep m g
        = (case train_episode rand_max env alpha gamma
                  (train_epsilon expf eps_start eps_min eps_decay ep) m
                  \<lparr>pos_x = start_x env, pos_y = start_y env\<rparr> 0 float_zero g of
             None \<Rightarrow> None
           | Some (m', s, steps, ret, g') \<Rightarrow>
               if ep = INT_MAX then None
               else
                 (case train_from expf rand_max env episodes alpha gamma eps_start eps_min
                         eps_decay (ep + 1) m' g' of
                    None \<Rightarrow> None
                  | Some (m'', g'', stats) \<Rightarrow> Some (m'', g'', (steps, ret) # stats)))) \<and>
   (\<not> float_is_nan eps_min \<longrightarrow>
      float_le eps_min (train_epsilon expf eps_start eps_min eps_decay ep)) \<and>
   (float_le eps_min eps_start \<and> float_le float_zero eps_start \<and>
    float_le float_zero eps_decay \<and> 1 \<le> ep \<and> ep \<le> INT_MAX \<and>
    (\<forall>x. float_le x float_zero \<longrightarrow>
           float_le float_zero (expf x) \<and> float_le (expf x) float_one) \<longrightarrow>
      float_le (train_epsilon expf eps_start eps_min eps_decay ep) eps_start)"
proof (intro conjI impI)
  show "train_epsilon expf eps_start eps_min eps_decay ep
     = fmaxf eps_min (fmul eps_start (expf (fmul (fneg eps_decay) (float_of_int ep))))"
    by (simp add: train_epsilon_def)
  show "train expf rand_max env m episodes alpha gamma eps_start eps_min eps_decay g
     = train_from expf rand_max env episodes alpha gamma eps_start eps_min eps_decay 1 m g"
    by (simp add: train_def)
  show "train_from expf rand_max env episodes alpha gamma eps_start eps_min eps_decay ep m g
        = (case train_episode rand_max env alpha gamma
                  (train_epsilon expf eps_start eps_min eps_decay ep) m
                  \<lparr>pos_x = start_x env, pos_y = start_y env\<rparr> 0 float_zero g of
             None \<Rightarrow> None
           | Some (m', s, steps, ret, g') \<Rightarrow>
               if ep = INT_MAX then None
               else
                 (case train_from expf rand_max env episodes alpha gamma eps_start eps_min
                         eps_decay (ep + 1) m' g' of
                    None \<Rightarrow> None
                  | Some (m'', g'', stats) \<Rightarrow> Some (m'', g'', (steps, ret) # stats)))"
    if "ep \<le> episodes"
    using that by (subst train_from.simps) simp
  show "float_le eps_min (train_epsilon expf eps_start eps_min eps_decay ep)"
    if "\<not> float_is_nan eps_min"
    unfolding train_epsilon_def by (rule fmaxf_lower [OF that])
  show "float_le (train_epsilon expf eps_start eps_min eps_decay ep) eps_start"
    if h: "float_le eps_min eps_start \<and> float_le float_zero eps_start \<and>
    float_le float_zero eps_decay \<and> 1 \<le> ep \<and> ep \<le> INT_MAX \<and>
    (\<forall>x. float_le x float_zero \<longrightarrow>
           float_le float_zero (expf x) \<and> float_le (expf x) float_one)"
  proof (rule train_epsilon_upper)
    show "float_le float_zero (expf x) \<and> float_le (expf x) float_one"
      if "float_le x float_zero" for x
      using h that by blast
  qed (use h in blast)+
qed

lemma float_half_tenth:
  "\<not> float_is_nan 0x3F000000" "\<not> float_is_nan 0x3DCCCCCD"
  "float_key 0x3F000000 = 1056964608" "float_key 0x3DCCCCCD = 1036831949"
  by (simp_all add: float_is_nan_def float_exponent_def float_fraction_def float_key_def
      float_sign_def)

text \<open>
  Nothing keeps \<open>eps_min\<close> below \<open>eps_start\<close>: with \<open>--eps-start 0.1 --eps-min 0.5\<close> the
  epsilon of the first episode (and of every other) is above \<open>eps_start\<close>, whatever
  \<open>expf\<close> returns.  Nor are the signs of \<open>eps_start\<close> and \<open>eps_decay\<close> checked.  With
  \<open>--eps-start -1 --eps-min -2 --eps-decay 0.0025\<close> the argument of \<open>expf\<close> is \<open>-0.0025\<close>,
  its value \<open>0.9975031\<close> (\<open>0x3F7F5C5D\<close>), and the epsilon \<open>-0.9975031\<close> is above \<open>-1\<close>.  With
  \<open>--eps-start 1 --eps-min 0.05 --eps-decay -0.0025\<close> the argument is \<open>0.0025\<close>, the value of
  \<open>expf\<close> \<open>1.0025032\<close> (\<open>0x3F805206\<close>), and the epsilon \<open>1.0025032\<close> is above 1.
\<close>

theorem train_epsilon_bounds_counterexample:
  "(\<forall>expf. float_lt 0x3DCCCCCD (train_epsilon expf 0x3DCCCCCD 0x3F000000 0x3B23D70A 1) \<and>
           \<not> float_le (train_epsilon expf 0x3DCCCCCD 0x3F000000 0x3B23D70A 1) 0x3DCCCCCD) \<and>
   float_le 0xC0000000 0xBF800000 \<and>
   fmul (fneg 0x3B23D70A) (float_of_int 1) = 0xBB23D70A \<and>
   train_epsilon (\<lambda>x. 0x3F7F5C5D) 0xBF800000 0xC0000000 0x3B23D70A 1 = 0xBF7F5C5D \<and>
   float_lt 0xBF800000 0xBF7F5C5D \<and>
   float_le 0x3D4CCCCD float_one \<and>
   fmul (fneg 0xBB23D70A) (float_of_int 1) = 0x3B23D70A \<and>
   train_epsilon (\<lambda>x. 0x3F805206) float_one 0x3D4CCCCD 0xBB23D70A 1 = 0x3F805206 \<and>
   float_lt float_one 0x3F805206"
proof -
  have "float_lt 0x3DCCCCCD (train_epsilon expf 0x3DCCCCCD 0x3F000000 0x3B23D70A 1) \<and>
          \<not> float_le (train_epsilon expf 0x3DCCCCCD 0x3F000000 0x3B23D70A 1) 0x3DCCCCCD"
    for expf
  proof -
    have "float_lt 0x3DCCCCCD 0x3F000000"
      by (simp add: float_lt_def float_half_tenth)
    then have "float_lt 0x3DCCCCCD (train_epsilon expf 0x3DCCCCCD 0x3F000000 0x3B23D70A 1)"
      unfolding train_epsilon_def by (rule fmaxf_above)
    then show ?thesis
      by (auto simp add: float_lt_def float_le_def)
  qed
  moreover have "float_le 0xC0000000 0xBF800000"
    by code_simp
  moreover have "fmul (fneg 0x3B23D70A) (float_of_int 1) = 0xBB23D70A"
    by code_simp
  moreover have
    "train_epsilon (\<lambda>x. 0x3F7F5C5D) 0xBF800000 0xC0000000 0x3B23D70A 1 = 0xBF7F5C5D"
    by code_simp
  moreover have "float_lt 0xBF800000 0xBF7F5C5D"
    by code_simp
  moreover have "float_le 0x3D4CCCCD float_one"
    by code_simp
  moreover have "fmul (fneg 0xBB23D70A) (float_of_int 1) = 0x3B23D70A"
    by code_simp
  moreover have
    "train_epsilon (\<lambda>x. 0x3F805206) float_one 0x3D4CCCCD 0xBB23D70A 1 = 0x3F805206"
    by code_simp
  moreover have "float_lt float_one 0x3F805206"
    by code_simp
  ultimately show ?thesis
    by blast
qed

text \<open>
  The default schedule: \<open>eps_start = 1.0\<close>, \<open>eps_min = 0.05\<close>, \<open>eps_decay = 0.0025\<close>.  In
  episode 1 the argument of \<open>expf\<close> is \<open>-0.0025\<close> (\<open>0xBB23D70A\<close>), where \<open>expf\<close> returns
  \<open>0.9975031\<close> (\<open>0x3F7F5C5D\<close>); that is the epsilon of the episode.
\<close>

theorem train_epsilon_bounds_witness:
  "\<not> float_is_nan 0x3D4CCCCD \<and> float_le 0x3D4CCCCD float_one \<and>
   float_le float_zero float_one \<and> float_le float_zero 0x3B23D70A \<and>
   (1::int) \<le> 1 \<and> 1 \<le> INT_MAX \<and>
   float_le float_zero 0x3F7F5C5D \<and> float_le 0x3F7F5C5D float_one \<and>
   fmul (fneg 0x3B23D70A) (float_of_int 1) = 0xBB23D70A \<and>
   train_epsilon (\<lambda>x. 0x3F7F5C5D) float_one 0x3D4CCCCD 0x3B23D70A 1 = 0x3F7F5C5D \<and>
   float_le 0x3D4CCCCD (train_epsilon (\<lambda>x. 0x3F7F5C5D) float_one 0x3D4CCCCD 0x3B23D70A 1) \<and>
   float_le (train_epsilon (\<lambda>x. 0x3F7F5C5D) float_one 0x3D4CCCCD 0x3B23D70A 1) float_one"
proof -
  have n: "\<not> float_is_nan 0x3D4CCCCD"
    by code_simp
  have l: "float_le 0x3D4CCCCD float_one"
    by code_simp
  have s: "float_le float_zero float_one"
    by code_simp
  have d: "float_le float_zero 0x3B23D70A"
    by code_simp
  have i: "(1::int) \<le> 1" "1 \<le> INT_MAX"
    by (simp_all add: INT_MAX_def)
  have x: "float_le float_zero 0x3F7F5C5D" "float_le 0x3F7F5C5D float_one"
    by code_simp+
  have a: "fmul (fneg 0x3B23D70A) (float_of_int 1) = 0xBB23D70A"
    by code_simp
  have e: "train_epsilon (\<lambda>x. 0x3F7F5C5D) float_one 0x3D4CCCCD 0x3B23D70A 1 = 0x3F7F5C5D"
    by code_simp
  note b = train_epsilon_bounds [of "\<lambda>x. 0x3F7F5C5D" float_one "0x3D4CCCCD" "0x3B23D70A" 1]
  from b n have lo: "float_le 0x3D4CCCCD
      (train_epsilon (\<lambda>x. 0x3F7F5C5D) float_one 0x3D4CCCCD 0x3B23D70A 1)"
    by blast
  from b l s d i x have hi: "float_le
      (train_epsilon (\<lambda>x. 0x3F7F5C5D) float_one 0x3D4CCCCD 0x3B23D70A 1) float_one"
    by blast
  from n l s d i x a e lo hi show ?thesis
    by blast
qed

subsection \<open>The epsilon-greedy choice\<close>

text \<open>
  What \<open>eps_greedy_action\<close> does with the generator: one draw for the test, a second one
  for the action when the test succeeds.  The value tested is never negative, so that
  with \<open>eps\<close> zero the greedy action is returned whatever is drawn.
\<close>

lemma eps_greedy_action_cases:
  "eps_greedy_action rand_max m env s eps g =
     (if float_lt (fdiv (float_of_int (g 0)) (float_of_int rand_max)) eps
      then Some (c_rem (g 1) ACTIONS, \<lambda>n. g (Suc (Suc n)))
      else map_option (\<lambda>a. (a, \<lambda>n. g (Suc n))) (argmax_a m env s))"
  by (simp add: eps_greedy_action_def rand_def split: option.splits)

lemma float_round_not_negative:
  assumes "0 \<le> p" "0 < q"
  shows "\<not> float_sign (float_round False p q)" "0 \<le> float_key (float_round False p q)"
  using round_mag_range [OF assms] float_pack_not_negative [of "round_mag p q"]
    float_pack_not_negative [of 0]
  by (simp_all add: float_round_def)

lemma float_of_int_not_negative:
  assumes "0 \<le> i"
  shows "\<not> float_sign (float_of_int i)"
  using assms float_round_not_negative(1) [of "\<bar>i\<bar>" 1] by (simp add: float_of_int_def)

lemma float_mant_pos:
  assumes "\<not> float_is_zero b"
  shows "0 < float_mant b"
proof -
  have "0 \<le> float_fraction b"
    by (simp add: float_fraction_def)
  with assms show ?thesis
    by (auto simp add: float_mant_def float_is_zero_def)
qed

lemma fdiv_not_negative:
  assumes "\<not> float_sign a" "\<not> float_sign b"
  shows "float_is_nan (fdiv a b) \<or> 0 \<le> float_key (fdiv a b)"
proof -
  have q: "float_is_nan float_qnan"
    by (simp add: float_is_nan_def float_exponent_def float_fraction_def float_qnan_def)
  have i: "0 \<le> float_key (float_inf False)"
    unfolding float_inf_def by (rule float_pack_not_negative) simp_all
  have z: "0 \<le> float_key (float_pack False 0)"
    by (rule float_pack_not_negative) simp_all
  have r: "0 \<le> float_key (float_round False (scale2 (float_mant a) k) (scale2 (float_mant b) k'))"
    if "\<not> float_is_zero b" for k k'
    by (intro float_round_not_negative scale2_nonneg scale2_pos float_mant_nonneg
        float_mant_pos that)
  show ?thesis
    using assms q i z r by (simp add: fdiv_def Let_def)
qed

lemma eps_greedy_action_eps_zero:
  assumes "0 \<le> g 0" "0 \<le> rand_max" "float_is_zero eps"
  shows "eps_greedy_action rand_max m env s eps g =
           map_option (\<lambda>a. (a, \<lambda>n. g (Suc n))) (argmax_a m env s)"
proof -
  let ?v = "fdiv (float_of_int (g 0)) (float_of_int rand_max)"
  have "float_is_nan ?v \<or> 0 \<le> float_key ?v"
    by (intro fdiv_not_negative float_of_int_not_negative assms)
  moreover have "float_key eps = 0"
  proof -
    from assms(3) have "uint eps div 2 ^ 23 mod 2 ^ 8 = 0" "uint eps mod 2 ^ 23 = 0"
      by (simp_all add: float_is_zero_def float_exponent_def float_fraction_def)
    with zmod_zmult2_eq [of "2 ^ 8" "uint eps" "2 ^ 23"] have "uint eps mod 2 ^ 31 = 0"
      by simp
    then show ?thesis
      by (simp add: float_key_def)
  qed
  ultimately have "\<not> float_lt ?v eps"
    by (auto simp add: float_lt_def)
  then show ?thesis
    by (simp add: eps_greedy_action_cases)
qed

text \<open>
  \<^bold>\<open>C8.\<close>  \<open>eps_greedy_action\<close> does what is claimed (\<open>eps_greedy_action_cases\<close>,
  \<open>eps_greedy_action_eps_zero\<close>) but for the range of the value drawn, and with it the
  case \<open>eps = 1.0\<close>.  The value it compares with \<open>eps\<close> is
  \<open>(float) rand() / (float) RAND_MAX\<close>, which is \<open>1.0\<close> when \<open>rand()\<close> returns \<open>RAND_MAX\<close>: it
  lies in \<open>[0, 1]\<close>, not in \<open>[0, 1)\<close>.  With \<open>eps = 1.0\<close> and that draw the test
  \<open>1.0 < 1.0\<close> fails and the greedy action (1 in the table \<open>m_tie\<close>) is returned, not a
  random one (\<open>RAND_MAX % 4 = 3\<close>).
\<close>

theorem eps_greedy_action_rand_max:
  "fdiv (float_of_int 2147483647) (float_of_int 2147483647) = float_one \<and>
   \<not> float_lt float_one float_one \<and>
   argmax_a m_tie (env_init 2 2) 0 = Some 1 \<and>
   c_rem 2147483647 ACTIONS = 3 \<and>
   map_option fst (eps_greedy_action 2147483647 m_tie (env_init 2 2) 0 float_one (\<lambda>n. 2147483647))
     = Some 1"
  by code_simp


subsection \<open>Reproducible runs\<close>

lemma train_step_shape:
  assumes "train_step rand_max env alpha gamma eps m s g = Some (m', ns, r, d, g')"
  shows "length (qm_q m') = length (qm_q m) \<and> qm_w m' = qm_w m \<and> qm_h m' = qm_h m"
  using assms
  by (auto simp add: train_step_def Let_def split: option.splits prod.splits if_splits)

lemma train_episode_shape:
  assumes "train_episode rand_max env alpha gamma eps m s steps ret g = Some (m', s', steps', ret', g')"
  shows "length (qm_q m') = length (qm_q m) \<and> qm_w m' = qm_w m \<and> qm_h m' = qm_h m"
  using assms
proof (induction rand_max env alpha gamma eps m s steps ret g rule: train_episode.induct)
  case (1 rand_max env alpha gamma eps m s steps ret g)
  from "1.prems" obtain m1 ns r d g1 where
    st: "train_step rand_max env alpha gamma eps m s g = Some (m1, ns, r, d, g1)"
    by (subst (asm) train_episode.simps) (auto split: option.splits)
  note sh = train_step_shape [OF st]
  show ?case
  proof (cases "d \<or> step_limit env \<le> steps + 1")
    case True
    with "1.prems" st have "m' = m1"
      by (subst (asm) train_episode.simps) auto
    with sh show ?thesis
      by simp
  next
    case False
    with "1.prems" st have
      "train_episode rand_max env alpha gamma eps m1 ns (steps + 1) (fadd ret r) g1
         = Some (m', s', steps', ret', g')"
      by (subst (asm) train_episode.simps) auto
    from "1.IH" [OF st refl refl refl refl False this] sh show ?thesis
      by simp
  qed
qed

lemma train_from_shape:
  assumes "train_from expf rand_max env episodes alpha gamma eps_start eps_min eps_decay ep m g
             = Some (m', g', stats)"
  shows "length (qm_q m') = length (qm_q m) \<and> qm_w m' = qm_w m \<and> qm_h m' = qm_h m"
  using assms
proof (induction expf rand_max env episodes alpha gamma eps_start eps_min eps_decay ep m g
    arbitrary: stats rule: train_from.induct)
  case (1 expf rand_max env episodes alpha gamma eps_start eps_min eps_decay ep m g)
  show ?case
  proof (cases "ep \<le> episodes")
    case False
    with "1.prems" show ?thesis
      by (subst (asm) train_from.simps) simp
  next
    case True
    let ?eps = "train_epsilon expf eps_start eps_min eps_decay ep"
    from "1.prems" True obtain m1 s1 steps1 ret1 g1 where
      ep: "train_episode rand_max env alpha gamma ?eps m
             \<lparr>pos_x = start_x env, pos_y = start_y env\<rparr> 0 float_zero g
           = Some (m1, s1, steps1, ret1, g1)"
      by (subst (asm) train_from.simps) (auto split: option.splits)
    from "1.prems" True ep have ne: "ep \<noteq> INT_MAX"
      by (subst (asm) train_from.simps) (auto split: if_splits)
    from "1.prems" True ep ne obtain stats1 where
      "train_from expf rand_max env episodes alpha gamma eps_start eps_min eps_decay (ep + 1) m1 g1
         = Some (m', g', stats1)"
      by (subst (asm) train_from.simps) (auto split: option.splits)
    from "1.IH" [OF True ep refl refl refl refl ne this] train_episode_shape [OF ep]
    show ?thesis
      by simp
  qed
qed

lemma qsize_nonneg: "0 \<le> qsize w h"
  by (simp add: qsize_def size_t_of_int_def SIZE_MAX_def)

lemma main_table_shape:
  assumes "main_table fs args = Inr q"
  shows "int (length (qm_q q)) = qsize (qm_w q) (qm_h q)"
proof (cases "arg_load_path args")
  case None
  with assms show ?thesis
    using qsize_nonneg [of "arg_W args" "arg_H args"]
    by (auto simp add: main_table_def qmodel_alloc_def split: if_splits)
next
  case (Some path)
  with assms have l: "load_qtable fs path = Inr q"
    by (auto simp add: main_table_def split: sum.splits if_splits)
  then obtain bs where "files fs path = Some bs"
    by (cases "files fs path") (simp_all add: load_qtable_def)
  from load_qtable_loaded [OF this l] show ?thesis
    by blast
qed

lemma save_qtable_defined:
  assumes "int (length (qm_q q)) = qsize (qm_w q) (qm_h q)"
  shows "save_qtable fs path q \<noteq> Inl Undefined"
proof -
  from assms have "nat (qsize (qm_w q) (qm_h q)) = length (qm_q q)"
    by (metis nat_int)
  then show ?thesis
    by (simp add: save_qtable_def Let_def)
qed


lemma save_qtable_cases:
  "save_qtable fs path q =
     (if \<not> writable fs path then Inl ExitFopen
      else if length (qm_q q) < nat (qsize (qm_w q) (qm_h q)) then Inl Undefined
      else Inr (fs\<lparr>files := (files fs)(path \<mapsto>
                  int32_bytes (qm_w q) @ int32_bytes (qm_h q) @
                  concat (map le32_bytes (take (nat (qsize (qm_w q) (qm_h q))) (qm_q q))))\<rparr>))"
  by (simp add: save_qtable_def Let_def)

text \<open>
  \<^bold>\<open>C4.\<close>  With an explicit seed, the exit status and the final table of a run are
  determined by the arguments, the initial table and whether the save path can be
  written: two runs at different times (the clock is the only other input of \<open>main\<close>),
  on file systems that may differ otherwise, end with bit-identical tables.  The C
  library (\<open>expf\<close>, \<open>RAND_MAX\<close>, the sequence \<open>rand()\<close> returns after \<open>srand(seed)\<close>) is the
  same in both runs.
\<close>

theorem main_deterministic:
  assumes "arg_seed args = Some seed"
    and "main_table fs1 args = main_table fs2 args"
    and "case arg_save_path args of
           None \<Rightarrow> True
         | Some path \<Rightarrow> writable fs1 path = writable fs2 path"
  shows "map_option (\<lambda>(status, fs', q). (status, q)) (main expf rand_max rand_seq clock1 args fs1)
       = map_option (\<lambda>(status, fs', q). (status, q)) (main expf rand_max rand_seq clock2 args fs2)"
proof -
  have seed: "main_seed clock1 args = main_seed clock2 args"
    by (simp add: main_seed_def assms(1))
  let ?env = "env_init (arg_W args) (arg_H args)"
  let ?g = "rand_seq (main_seed clock2 args)"
  show ?thesis
  proof (cases "arg_W args < 2 \<or> arg_H args < 2 \<or> arg_W args > MAX_W \<or> arg_H args > MAX_H")
    case True
    then show ?thesis
      by (simp add: main_def)
  next
    case size: False
    show ?thesis
    proof (cases "main_table fs2 args")
      case (Inl e)
      with size assms(2) show ?thesis
        by (simp add: main_def Let_def)
    next
      case (Inr q)
      let ?trained = "if arg_train_eps args > 0
                       then map_option fst
                              (train expf rand_max ?env q (arg_train_eps args) (arg_alpha args)
                                 (arg_gamma args) (arg_eps_start args) (arg_eps_min args)
                                 (arg_eps_decay args) ?g)
                       else Some q"
      show ?thesis
      proof (cases ?trained)
        case None
        with size assms(2) Inr seed show ?thesis
          by (simp add: main_def Let_def)
      next
        case (Some q')
        let ?saved = "\<lambda>fs. if arg_train_eps args > 0
                            then (case arg_save_path args of
                                    Some path \<Rightarrow> save_qtable fs path q'
                                  | None \<Rightarrow> Inr fs)
                            else Inr fs"
        let ?played = "if arg_play_eps args > 0
                                 then play_greedy ?env q' (arg_play_eps args)
                                 else Some []"
        have m: "main expf rand_max rand_seq clock args fs =
                   (case ?saved fs of
                        Inl Undefined \<Rightarrow> None
                      | Inl e \<Rightarrow> Some (1, fs, Some q')
                      | Inr fs' \<Rightarrow>
                          (case ?played of
                             None \<Rightarrow> None
                           | Some shown \<Rightarrow> Some (0, fs', Some q')))"
          if "main_table fs args = Inr q" and "main_seed clock args = main_seed clock2 args"
          for clock fs
          using size that Some by (simp add: main_def Let_def)
        have s: "(\<exists>e. ?saved fs1 = Inl e \<and> ?saved fs2 = Inl e) \<or>
                 (\<exists>fa fb. ?saved fs1 = Inr fa \<and> ?saved fs2 = Inr fb)"
          using assms(3) by (auto simp add: save_qtable_cases split: option.splits)
        from s show ?thesis
        proof
          assume "\<exists>e. ?saved fs1 = Inl e \<and> ?saved fs2 = Inl e"
          then obtain e where "?saved fs1 = Inl e" "?saved fs2 = Inl e"
            by blast
          then show ?thesis
            unfolding m [OF Inr refl] m [of fs1 clock1, OF assms(2) [unfolded Inr] seed]
            by (cases e) simp_all
        next
          assume "\<exists>fa fb. ?saved fs1 = Inr fa \<and> ?saved fs2 = Inr fb"
          then obtain fa fb where "?saved fs1 = Inr fa" "?saved fs2 = Inr fb"
            by blast
          then show ?thesis
            unfolding m [OF Inr refl] m [of fs1 clock1, OF assms(2) [unfolded Inr] seed]
            by (cases ?played) simp_all
        qed
      qed
    qed
  qed
qed


text \<open>Two runs of \<open>--train 2 --size 2 2 --seed 42 --save qtable.bin\<close>.\<close>

theorem main_deterministic_witness:
  "arg_seed args_example = Some 42 \<and>
   main_table fs_example args_example = main_table fs_other args_example \<and>
   (case arg_save_path args_example of
      None \<Rightarrow> True
    | Some path \<Rightarrow> writable fs_example path = writable fs_other path) \<and>
   (\<forall>expf rand_seq.
      map_option (\<lambda>(status, fs', q). (status, q))
        (main expf 2147483647 rand_seq 1700000000 args_example fs_example)
      = map_option (\<lambda>(status, fs', q). (status, q))
        (main expf 2147483647 rand_seq 1800000000 args_example fs_other))"
proof -
  have s: "arg_seed args_example = Some 42"
    by (simp add: args_example_def)
  have t: "main_table fs_example args_example = main_table fs_other args_example"
    by (simp add: main_table_def args_example_def)
  have w: "case arg_save_path args_example of
      None \<Rightarrow> True
    | Some path \<Rightarrow> writable fs_example path = writable fs_other path"
    by (simp add: args_example_def fs_example_def fs_other_def)
  from main_deterministic [OF s t w] s t w show ?thesis
    by blast
qed

subsection \<open>A run has no undefined behaviour\<close>

text \<open>
  For every argument vector with episode counts below \<open>INT_MAX\<close>, every file system and
  every generator that returns no negative value, \<open>main\<close> returns: no access outside the
  table or the \<open>walls\<close> array happens, and every loop ends.
\<close>

lemma main_table_fits:
  assumes "\<not> (arg_W args < 2 \<or> arg_H args < 2 \<or> arg_W args > MAX_W \<or> arg_H args > MAX_H)"
    and "main_table fs args = Inr q"
  shows "table_fits (env_init (arg_W args) (arg_H args)) q"
    "qm_w q = arg_W args" "qm_h q = arg_H args"
proof -
  from assms(1) have b: "2 \<le> arg_W args" "arg_W args \<le> MAX_W" "2 \<le> arg_H args"
    "arg_H args \<le> MAX_H"
    by simp_all
  have wh: "qm_w q = arg_W args \<and> qm_h q = arg_H args"
    using assms(2) qmodel_alloc_fits [OF b]
    by (auto simp add: main_table_def split: option.splits sum.splits if_splits)
  then show "qm_w q = arg_W args" "qm_h q = arg_H args"
    by simp_all
  have "qsize (arg_W args) (arg_H args) = arg_W args * arg_H args * ACTIONS"
    using grid_area [of "arg_W args" "arg_H args"] b
    by (intro qsize_small) (simp_all add: MAX_W_def MAX_H_def)
  with main_table_shape [OF assms(2)] wh
  show "table_fits (env_init (arg_W args) (arg_H args)) q"
    by (simp add: table_fits_def env_init_def)
qed

lemma main_defined:
  assumes "rng_ok (rand_seq (main_seed clock args))"
    and "arg_train_eps args < INT_MAX" and "arg_play_eps args < INT_MAX"
  shows "\<exists>status fs' q. main expf rand_max rand_seq clock args fs = Some (status, fs', q)"
proof (cases "arg_W args < 2 \<or> arg_H args < 2 \<or> arg_W args > MAX_W \<or> arg_H args > MAX_H")
  case True
  then show ?thesis
    by (simp add: main_def)
next
  case size: False
  then have b: "2 \<le> arg_W args" "arg_W args \<le> MAX_W" "2 \<le> arg_H args" "arg_H args \<le> MAX_H"
    by simp_all
  let ?env = "env_init (arg_W args) (arg_H args)"
  note env = env_init_invariants [OF b]
  show ?thesis
  proof (cases "main_table fs args")
    case (Inl e)
    with size show ?thesis
      by (simp add: main_def Let_def)
  next
    case (Inr q)
    note q = main_table_fits [OF size Inr]
    let ?trained = "if arg_train_eps args > 0
                     then map_option fst
                            (train expf rand_max ?env q (arg_train_eps args) (arg_alpha args)
                               (arg_gamma args) (arg_eps_start args) (arg_eps_min args)
                               (arg_eps_decay args) (rand_seq (main_seed clock args)))
                     else Some q"
    obtain q' where q': "?trained = Some q'" "table_fits ?env q'"
      "qm_w q' = arg_W args" "qm_h q' = arg_H args"
    proof (cases "arg_train_eps args > 0")
      case False
      with q that show ?thesis
        by simp
    next
      case True
      obtain m' g' stats where
        t: "train_from expf rand_max ?env (arg_train_eps args) (arg_alpha args)
              (arg_gamma args) (arg_eps_start args) (arg_eps_min args) (arg_eps_decay args) 1 q
              (rand_seq (main_seed clock args)) = Some (m', g', stats)" and
        f: "table_fits ?env m'"
        using train_from_bounded [OF env(1,2) q(1) assms(1) env(3) assms(2)] by blast
      from train_from_shape [OF t] q(2,3) have "qm_w m' = arg_W args" "qm_h m' = arg_H args"
        by simp_all
      with t f True that show ?thesis
        by (simp add: train_def)
    qed
    have "qsize (arg_W args) (arg_H args) = arg_W args * arg_H args * ACTIONS"
      using grid_area [of "arg_W args" "arg_H args"] b
      by (intro qsize_small) (simp_all add: MAX_W_def MAX_H_def)
    with q'(2-4) have "int (length (qm_q q')) = qsize (qm_w q') (qm_h q')"
      by (simp add: table_fits_def env_init_def)
    note sv = save_qtable_defined [OF this]
    have "\<exists>shown. (if arg_play_eps args > 0
                                 then play_greedy ?env q' (arg_play_eps args)
                                 else Some []) = Some shown"
      using play_from_bounded [OF env(1,2) q'(2) env(3) assms(3), of 1]
      by (cases "arg_play_eps args > 0") (auto simp add: play_greedy_def)
    then obtain shown where p: "(if arg_play_eps args > 0
                                 then play_greedy ?env q' (arg_play_eps args)
                                 else Some []) = Some shown"
      by blast
    let ?saved = "if arg_train_eps args > 0
                            then (case arg_save_path args of
                                    Some path \<Rightarrow> save_qtable fs path q'
                                  | None \<Rightarrow> Inr fs)
                            else Inr fs"
    let ?played = "if arg_play_eps args > 0
                                 then play_greedy ?env q' (arg_play_eps args)
                                 else Some []"
    have m: "main expf rand_max rand_seq clock args fs =
                   (case ?saved of
                        Inl Undefined \<Rightarrow> None
                      | Inl e \<Rightarrow> Some (1, fs, Some q')
                      | Inr fs' \<Rightarrow>
                          (case ?played of
                             None \<Rightarrow> None
                           | Some shown \<Rightarrow> Some (0, fs', Some q')))"
      using size Inr q'(1) by (simp add: main_def Let_def)
    have u: "?saved \<noteq> Inl Undefined"
      using sv by (simp split: option.splits)
    show ?thesis
    proof (cases ?saved)
      case (Inl e)
      with u have "e \<noteq> Undefined"
        by simp
      then show ?thesis
        unfolding m Inl by (cases e) simp_all
    next
      case (Inr fs')
      show ?thesis
        unfolding m Inr p by simp
    qed
  qed
qed

end
